theory Spec2Isabelle
  imports Main "HOL-Library.AList"
begin

section \<open>Values of the record tree\<close>

text \<open>
  The converter works on what \<^verbatim>\<open>yaml.safe_load\<close> returns: nested Python values.
  \<open>val\<close> has one constructor for each Python type the code tests for
  (\<^verbatim>\<open>None\<close>, \<^verbatim>\<open>bool\<close>, \<^verbatim>\<open>int\<close>, \<^verbatim>\<open>str\<close>, \<^verbatim>\<open>list\<close>, \<^verbatim>\<open>dict\<close>).
  A \<^verbatim>\<open>dict\<close> is an association list in insertion order, as Python iterates it; keys are
  compared structurally. YAML floats, timestamps and binary scalars have no constructor,
  and Python's identification of the keys \<^verbatim>\<open>True\<close> and \<^verbatim>\<open>1\<close> is not modelled for the
  dicts of the tree (it is for the keys of the sequence counters, see \<open>hash_key\<close>).
  A record is a tree: no two paths share one mutable node.
\<close>

datatype val =
    VNone
  | VBool bool
  | VInt int
  | VStr string
  | VList "val list"
  | VDict "(val \<times> val) list"

type_synonym dict = "(val \<times> val) list"

datatype py_error = TypeError | AttributeError | KeyError | ReError

section \<open>Path addressing (utils.py)\<close>

text \<open>\<^verbatim>\<open>path.split('.')\<close>: the segments between dots; never the empty list.\<close>

fun split_dot :: "string \<Rightarrow> string list" where
  "split_dot [] = [[]]"
| "split_dot (c # cs) =
     (if c = CHR ''.'' then [] # split_dot cs
      else (case split_dot cs of
              [] \<Rightarrow> [[c]]
            | w # ws \<Rightarrow> (c # w) # ws))"

text \<open>The loop of \<^verbatim>\<open>get_nested_value\<close> over the remaining segments.\<close>

fun get_walk :: "val \<Rightarrow> string list \<Rightarrow> val" where
  "get_walk current [] = current"
| "get_walk current (part # parts) =
     (case current of
        VDict d \<Rightarrow>
          (case map_of d (VStr part) of
             Some v \<Rightarrow> get_walk v parts
           | None \<Rightarrow> VNone)
      | _ \<Rightarrow> VNone)"

definition get_nested_value :: "val \<Rightarrow> string \<Rightarrow> val" where
  "get_nested_value data path = get_walk data (split_dot path)"

text \<open>
  The loop of \<^verbatim>\<open>set_nested_value\<close>. \<open>current\<close> is always a dict here: the top level
  is checked by \<open>set_nested_value\<close>, and every intermediate node is a dict or is replaced
  by \<^verbatim>\<open>{}\<close>. Assigning to a key keeps its position, a new key goes last.
\<close>

fun set_walk :: "dict \<Rightarrow> string list \<Rightarrow> val \<Rightarrow> dict" where
  "set_walk current [] v = current"
| "set_walk current [part] v = AList.update (VStr part) v current"
| "set_walk current (part # parts) v =
     (let sub = (case map_of current (VStr part) of
                   Some (VDict d) \<Rightarrow> d
                 | _ \<Rightarrow> [])
      in AList.update (VStr part) (VDict (set_walk sub parts v)) current)"

text \<open>On a top level that is no dict, \<^verbatim>\<open>current[part] = value\<close> raises TypeError.\<close>

definition set_nested_value :: "val \<Rightarrow> string \<Rightarrow> val \<Rightarrow> py_error + val" where
  "set_nested_value data path v =
     (case data of
        VDict d \<Rightarrow> Inr (VDict (set_walk d (split_dot path) v))
      | _ \<Rightarrow> Inl TypeError)"

fun delete_walk :: "val \<Rightarrow> string list \<Rightarrow> val" where
  "delete_walk current [] = current"
| "delete_walk current [part] =
     (case current of
        VDict d \<Rightarrow> VDict (AList.delete (VStr part) d)
      | _ \<Rightarrow> current)"
| "delete_walk current (part # parts) =
     (case current of
        VDict d \<Rightarrow>
          (case map_of d (VStr part) of
             Some v \<Rightarrow> VDict (AList.update (VStr part) (delete_walk v parts) d)
           | None \<Rightarrow> current)
      | _ \<Rightarrow> current)"

definition delete_nested_value :: "val \<Rightarrow> string \<Rightarrow> val" where
  "delete_nested_value data path = delete_walk data (split_dot path)"

section \<open>Python built-ins the converter relies on\<close>

text \<open>Truth value of an object, as \<^verbatim>\<open>if x:\<close> and \<^verbatim>\<open>not x\<close> test it.\<close>

fun py_truthy :: "val \<Rightarrow> bool" where
  "py_truthy VNone = False"
| "py_truthy (VBool b) = b"
| "py_truthy (VInt i) = (i \<noteq> 0)"
| "py_truthy (VStr s) = (s \<noteq> [])"
| "py_truthy (VList xs) = (xs \<noteq> [])"
| "py_truthy (VDict d) = (d \<noteq> [])"

text \<open>\<^verbatim>\<open>bool\<close> is a subclass of \<^verbatim>\<open>int\<close>: the numeric value of a number, if it is one.\<close>

fun num_of :: "val \<Rightarrow> int option" where
  "num_of (VInt i) = Some i"
| "num_of (VBool b) = Some (if b then 1 else 0)"
| "num_of _ = None"

fun is_hashable :: "val \<Rightarrow> bool" where
  "is_hashable (VList xs) = False"
| "is_hashable (VDict d) = False"
| "is_hashable _ = True"

text \<open>\<^verbatim>\<open>d.get(key, default)\<close> and \<^verbatim>\<open>key in d\<close> for a string key.\<close>

definition dict_get :: "dict \<Rightarrow> string \<Rightarrow> val \<Rightarrow> val" where
  "dict_get d k dflt = (case map_of d (VStr k) of Some v \<Rightarrow> v | None \<Rightarrow> dflt)"

definition dict_has :: "dict \<Rightarrow> string \<Rightarrow> bool" where
  "dict_has d k = (map_of d (VStr k) \<noteq> None)"

text \<open>Python's \<^verbatim>\<open>==\<close>: numbers by value, lists elementwise, dicts regardless of order.\<close>

fun py_eq :: "val \<Rightarrow> val \<Rightarrow> bool"
  and py_eq_list :: "val list \<Rightarrow> val list \<Rightarrow> bool"
  and py_eq_items :: "dict \<Rightarrow> dict \<Rightarrow> bool" where
  "py_eq VNone w = (w = VNone)"
| "py_eq (VBool b) w = (num_of w = Some (if b then 1 else 0))"
| "py_eq (VInt i) w = (num_of w = Some i)"
| "py_eq (VStr s) w = (w = VStr s)"
| "py_eq (VList xs) w = (case w of VList ys \<Rightarrow> py_eq_list xs ys | _ \<Rightarrow> False)"
| "py_eq (VDict d) w =
     (case w of VDict e \<Rightarrow> length d = length e \<and> py_eq_items d e | _ \<Rightarrow> False)"
| "py_eq_list [] ys = (ys = [])"
| "py_eq_list (x # xs) ys =
     (case ys of [] \<Rightarrow> False | y # ys' \<Rightarrow> py_eq x y \<and> py_eq_list xs ys')"
| "py_eq_items [] e = True"
| "py_eq_items (kv # d) e =
     ((case map_of e (fst kv) of Some w \<Rightarrow> py_eq (snd kv) w | None \<Rightarrow> False)
      \<and> py_eq_items d e)"

text \<open>
  \<^verbatim>\<open>a < b\<close> where \<open>a\<close> is already known to be a number: against anything but a number
  Python raises TypeError.
\<close>

definition py_lt :: "val \<Rightarrow> val \<Rightarrow> py_error + bool" where
  "py_lt a b =
     (case (num_of a, num_of b) of
        (Some x, Some y) \<Rightarrow> Inr (x < y)
      | _ \<Rightarrow> Inl TypeError)"

text \<open>\<^verbatim>\<open>a + b\<close>, as \<^verbatim>\<open>sequence_counters[key] += step\<close> needs it.\<close>

definition py_add :: "val \<Rightarrow> val \<Rightarrow> py_error + val" where
  "py_add a b =
     (case (num_of a, num_of b) of
        (Some x, Some y) \<Rightarrow> Inr (VInt (x + y))
      | _ \<Rightarrow>
        (case (a, b) of
           (VStr s, VStr t) \<Rightarrow> Inr (VStr (s @ t))
         | (VList xs, VList ys) \<Rightarrow> Inr (VList (xs @ ys))
         | _ \<Rightarrow> Inl TypeError))"

text \<open>Decimal digits of an integer, as \<^verbatim>\<open>str\<close> prints it.\<close>

definition digit_char :: "nat \<Rightarrow> char" where
  "digit_char n = ''0123456789'' ! (n mod 10)"

function str_of_nat :: "nat \<Rightarrow> string" where
  "str_of_nat n =
     (if n < 10 then [digit_char n] else str_of_nat (n div 10) @ [digit_char n])"
  by pat_completeness auto
termination
  by (relation "measure (\<lambda>n. n)") auto

declare str_of_nat.simps [simp del]

definition str_of_int :: "int \<Rightarrow> string" where
  "str_of_int i = (if i < 0 then CHR ''-'' # str_of_nat (nat (- i)) else str_of_nat (nat i))"

text \<open>
  \<^verbatim>\<open>s.replace(old, new)\<close>: every occurrence of \<open>old\<close>, scanning from the left without
  overlap; for the empty \<open>old\<close> Python puts \<open>new\<close> around every character.
\<close>

function replace_all :: "string \<Rightarrow> string \<Rightarrow> string \<Rightarrow> string" where
  "replace_all old new s =
     (if old = [] then new @ concat (map (\<lambda>c. c # new) s)
      else if s = [] then []
      else if take (length old) s = old
        then new @ replace_all old new (drop (length old) s)
      else hd s # replace_all old new (tl s))"
  by pat_completeness auto
termination
  by (relation "measure (\<lambda>(old, new, s). length s)") auto

declare replace_all.simps [simp del]

section \<open>Library functions taken as parameters\<close>

text \<open>
  The code calls three libraries whose sources are not part of the repository. They are
  parameters of the model:
  \<^item> \<open>yaml_safe_load\<close> is \<^verbatim>\<open>yaml.safe_load\<close> on a string, \<open>None\<close> when it raises YAMLError;
    what it returns is taken to be a value of \<open>val\<close>;
  \<^item> \<open>re_match\<close> is \<^verbatim>\<open>re.match(pattern, string)\<close> read as a truth value: a match that
    starts at the first character of the string and need not reach its end; \<open>None\<close>
    when the pattern does not compile (\<^verbatim>\<open>re.error\<close>);
  \<^item> \<open>py_repr\<close> is what \<^verbatim>\<open>str\<close> prints for a list or a dict;
  \<^item> \<open>aeval_eval\<close> is \<^verbatim>\<open>Interpreter.eval\<close> of asteval on the symbol table the code
    builds (which of the two tables, the record bound to \<^verbatim>\<open>data\<close>, the context), \<open>None\<close>
    when it raises. Evaluation is taken to leave the record as it is.
\<close>

datatype symtable = ContextTable | SetTable

record pylib =
  yaml_safe_load :: "string \<Rightarrow> val option"
  re_match :: "string \<Rightarrow> string \<Rightarrow> bool option"
  py_repr :: "val \<Rightarrow> string"
  aeval_eval :: "symtable \<Rightarrow> val \<Rightarrow> dict \<Rightarrow> val \<Rightarrow> val option"

text \<open>\<^verbatim>\<open>str(x)\<close>.\<close>

definition py_str :: "pylib \<Rightarrow> val \<Rightarrow> string" where
  "py_str L v =
     (case v of
        VNone \<Rightarrow> ''None''
      | VBool b \<Rightarrow> (if b then ''True'' else ''False'')
      | VInt i \<Rightarrow> str_of_int i
      | VStr s \<Rightarrow> s
      | _ \<Rightarrow> py_repr L v)"

section \<open>Placeholder substitution (utils.py)\<close>

text \<open>The loop over \<^verbatim>\<open>context.items()\<close> on a string leaf.\<close>

fun substitute :: "pylib \<Rightarrow> dict \<Rightarrow> string \<Rightarrow> string" where
  "substitute L [] s = s"
| "substitute L (kv # ctx) s =
     substitute L ctx
       (replace_all (''{'' @ py_str L (fst kv) @ ''}'') (py_str L (snd kv)) s)"

text \<open>
  \<^verbatim>\<open>process_placeholders\<close>. The dict comprehension inserts the processed items one by
  one; an unhashable processed key raises TypeError.
\<close>

function process_placeholders :: "pylib \<Rightarrow> val \<Rightarrow> dict \<Rightarrow> py_error + val"
  and pp_list :: "pylib \<Rightarrow> val list \<Rightarrow> dict \<Rightarrow> py_error + val list"
  and pp_items :: "pylib \<Rightarrow> dict \<Rightarrow> dict \<Rightarrow> dict \<Rightarrow> py_error + dict" where
  "process_placeholders L (VStr s) ctx =
     (let processed_str = substitute L ctx s
      in if processed_str \<noteq> s
         then (case yaml_safe_load L processed_str of
                 Some v \<Rightarrow> Inr v
               | None \<Rightarrow> Inr (VStr processed_str))
         else Inr (VStr s))"
| "process_placeholders L (VList xs) ctx =
     (case pp_list L xs ctx of Inl e \<Rightarrow> Inl e | Inr ys \<Rightarrow> Inr (VList ys))"
| "process_placeholders L (VDict d) ctx =
     (case pp_items L d ctx [] of Inl e \<Rightarrow> Inl e | Inr d' \<Rightarrow> Inr (VDict d'))"
| "process_placeholders L VNone ctx = Inr VNone"
| "process_placeholders L (VBool b) ctx = Inr (VBool b)"
| "process_placeholders L (VInt i) ctx = Inr (VInt i)"
| "pp_list L [] ctx = Inr []"
| "pp_list L (x # xs) ctx =
     (case process_placeholders L x ctx of
        Inl e \<Rightarrow> Inl e
      | Inr y \<Rightarrow> (case pp_list L xs ctx of Inl e \<Rightarrow> Inl e | Inr ys \<Rightarrow> Inr (y # ys)))"
| "pp_items L [] ctx acc = Inr acc"
| "pp_items L (kv # d) ctx acc =
     (case process_placeholders L (fst kv) ctx of
        Inl e \<Rightarrow> Inl e
      | Inr k \<Rightarrow>
        (case process_placeholders L (snd kv) ctx of
           Inl e \<Rightarrow> Inl e
         | Inr v \<Rightarrow>
           if is_hashable k then pp_items L d ctx (AList.update k v acc)
           else Inl TypeError))"
  by pat_completeness auto
termination
  by (relation "measure (\<lambda>x. case x of
         Inl (L, v, ctx) \<Rightarrow> size v
       | Inr (Inl (L, xs, ctx)) \<Rightarrow> size_list size xs
       | Inr (Inr (L, d, ctx, acc)) \<Rightarrow>
           size_list (\<lambda>kv. Suc (size (fst kv) + size (snd kv))) d)")
     (auto simp: size_prod_simp)

section \<open>Diagnostics\<close>

text \<open>
  The records the code sends to the logger at level WARNING or ERROR, one constructor
  for each call, with the value the message names. DEBUG records are left out.
\<close>

datatype log_event =
    WarnConditionNoPath val
  | ErrContextExpression val
  | WarnContextDefault val
  | ErrSetExpression val
  | WarnSetDefault val
  | WarnAppendNotList val
  | WarnPrependNotList val
  | ErrSequenceUnnamed val
  | ErrSequenceUnnamedHint
  | WarnTopRuleNoContent val

section \<open>Condition evaluator (utils.py)\<close>

text \<open>Step 3 of \<^verbatim>\<open>evaluate_condition\<close>: \<open>Inr True\<close> lets the evaluation go on.\<close>

definition check_regex :: "pylib \<Rightarrow> dict \<Rightarrow> val \<Rightarrow> py_error + bool" where
  "check_regex L pc value_at_path =
     (if dict_has pc ''regex_match'' then
        (case value_at_path of
           VStr s \<Rightarrow>
             (case dict_get pc ''regex_match'' VNone of
                VStr pat \<Rightarrow>
                  (case re_match L pat s of
                     None \<Rightarrow> Inl ReError
                   | Some m \<Rightarrow> Inr m)
              | _ \<Rightarrow> Inl TypeError)
         | _ \<Rightarrow> Inr False)
      else Inr True)"

text \<open>Step 4: the inclusive bounds \<^verbatim>\<open>min\<close> and \<^verbatim>\<open>max\<close>.\<close>

definition check_range :: "dict \<Rightarrow> val \<Rightarrow> py_error + bool" where
  "check_range pc value_at_path =
     (if dict_has pc ''min'' \<or> dict_has pc ''max'' then
        (if num_of value_at_path = None then Inr False
         else
           (case (if dict_has pc ''min''
                  then py_lt value_at_path (dict_get pc ''min'' VNone)
                  else Inr False) of
              Inl e \<Rightarrow> Inl e
            | Inr True \<Rightarrow> Inr False
            | Inr False \<Rightarrow>
                (case (if dict_has pc ''max''
                       then py_lt (dict_get pc ''max'' VNone) value_at_path
                       else Inr False) of
                   Inl e \<Rightarrow> Inl e
                 | Inr True \<Rightarrow> Inr False
                 | Inr False \<Rightarrow> Inr True)))
      else Inr True)"

text \<open>
  The checks of \<^verbatim>\<open>evaluate_condition\<close> on the processed condition, once the path is
  known to be a string.
\<close>

definition condition_checks :: "pylib \<Rightarrow> val \<Rightarrow> dict \<Rightarrow> string \<Rightarrow> py_error + bool" where
  "condition_checks L item_config pc p =
     (let value_at_path = get_nested_value item_config p in
      if dict_has pc ''exists'' \<and> dict_get pc ''exists'' VNone = VBool True
         \<and> value_at_path = VNone then Inr False
      else if dict_has pc ''exists'' \<and> dict_get pc ''exists'' VNone = VBool False
         \<and> value_at_path \<noteq> VNone then Inr False
      else if value_at_path = VNone
         \<and> (dict_has pc ''value'' \<or> dict_has pc ''regex_match''
              \<or> dict_has pc ''min'' \<or> dict_has pc ''max'') then Inr False
      else if dict_has pc ''value''
         \<and> \<not> py_eq value_at_path (dict_get pc ''value'' VNone) then Inr False
      else
        (case check_regex L pc value_at_path of
           Inl e \<Rightarrow> Inl e
         | Inr False \<Rightarrow> Inr False
         | Inr True \<Rightarrow> check_range pc value_at_path))"

text \<open>
  \<^verbatim>\<open>evaluate_condition\<close>: the result and the warnings it logs. A processed condition
  that is no dict has no \<^verbatim>\<open>get\<close>, a path that is no string has no \<^verbatim>\<open>split\<close>
  (AttributeError).
\<close>

definition evaluate_condition ::
  "pylib \<Rightarrow> val \<Rightarrow> val \<Rightarrow> dict \<Rightarrow> py_error + (bool \<times> log_event list)" where
  "evaluate_condition L item_config condition context =
     (case process_placeholders L condition context of
        Inl e \<Rightarrow> Inl e
      | Inr processed_condition \<Rightarrow>
        (case processed_condition of
           VDict pc \<Rightarrow>
             (let path = dict_get pc ''path'' VNone in
              if \<not> py_truthy path
              then Inr (False, [WarnConditionNoPath processed_condition])
              else
                (case path of
                   VStr p \<Rightarrow>
                     (case condition_checks L item_config pc p of
                        Inl e \<Rightarrow> Inl e
                      | Inr b \<Rightarrow> Inr (b, []))
                 | _ \<Rightarrow> Inl AttributeError))
         | _ \<Rightarrow> Inl AttributeError))"

section \<open>Context resolver (converter.py)\<close>

text \<open>A loop whose body may raise: the first error ends it.\<close>

fun fold_err :: "('a \<Rightarrow> 's \<Rightarrow> py_error + 's) \<Rightarrow> 'a list \<Rightarrow> 's \<Rightarrow> py_error + 's" where
  "fold_err f [] s = Inr s"
| "fold_err f (x # xs) s =
     (case f x s of Inl e \<Rightarrow> Inl e | Inr s' \<Rightarrow> fold_err f xs s')"

text \<open>
  \<^verbatim>\<open>for x in v\<close> and \<^verbatim>\<open>v.items()\<close>. Iterating a dict gives its keys, iterating a string
  its characters (the \<open>char\<close>s of the string here); anything else but a list raises.
\<close>

definition py_iter :: "val \<Rightarrow> py_error + val list" where
  "py_iter v =
     (case v of
        VList xs \<Rightarrow> Inr xs
      | VDict d \<Rightarrow> Inr (map fst d)
      | VStr s \<Rightarrow> Inr (map (\<lambda>c. VStr [c]) s)
      | _ \<Rightarrow> Inl TypeError)"

definition py_items :: "val \<Rightarrow> py_error + dict" where
  "py_items v = (case v of VDict d \<Rightarrow> Inr d | _ \<Rightarrow> Inl AttributeError)"

text \<open>\<^verbatim>\<open>path.split('.')\<close> exists for strings only.\<close>

definition as_path :: "val \<Rightarrow> py_error + string" where
  "as_path v = (case v of VStr p \<Rightarrow> Inr p | _ \<Rightarrow> Inl AttributeError)"

text \<open>
  The body of the loop of \<^verbatim>\<open>process_dynamic_context\<close>, on the pair of the context
  built so far and the log.
\<close>

definition context_step ::
  "pylib \<Rightarrow> val \<Rightarrow> val \<times> val \<Rightarrow> dict \<times> log_event list \<Rightarrow> dict \<times> log_event list" where
  "context_step L content_config def acc =
     (let var_name = fst def; var_config = snd def;
          final_context = fst acc; lg = snd acc;
          static = (AList.update var_name var_config final_context, lg)
      in case var_config of
           VDict vc \<Rightarrow>
             if dict_has vc ''expression'' then
               (case aeval_eval L ContextTable content_config final_context
                       (dict_get vc ''expression'' VNone) of
                  Some final_value \<Rightarrow> (AList.update var_name final_value final_context, lg)
                | None \<Rightarrow>
                    if dict_has vc ''default_value''
                    then (AList.update var_name (dict_get vc ''default_value'' VNone)
                            final_context,
                          lg @ [ErrContextExpression var_name, WarnContextDefault var_name])
                    else (final_context, lg @ [ErrContextExpression var_name]))
             else static
         | _ \<Rightarrow> static)"

definition process_dynamic_context ::
  "pylib \<Rightarrow> val \<Rightarrow> val \<Rightarrow> dict \<Rightarrow> log_event list \<Rightarrow> py_error + (dict \<times> log_event list)" where
  "process_dynamic_context L context_definitions content_config base_context lg =
     (case py_items context_definitions of
        Inl e \<Rightarrow> Inl e
      | Inr defs \<Rightarrow> Inr (fold (context_step L content_config) defs (base_context, lg)))"

section \<open>Action applicator (converter.py)\<close>

text \<open>
  A counter key is the string \<^verbatim>\<open>shared_id_<id>\<close> or the tuple \<^verbatim>\<open>(rule_name, path)\<close>.
  Two tuples are the same key of \<^verbatim>\<open>sequence_counters\<close> when their components are equal
  in Python, where \<^verbatim>\<open>True == 1\<close> and \<^verbatim>\<open>False == 0\<close>: \<open>hash_key\<close> maps a hashable
  value to the representative of its class, and an \<open>IsolatedKey\<close> is always built from
  representatives, so that equal keys are equal terms.
  The state \<^verbatim>\<open>apply_actions\<close> mutates: the record, the counters of the file, the log.
\<close>

datatype counter_key = SharedKey string | IsolatedKey val val

fun hash_key :: "val \<Rightarrow> val" where
  "hash_key (VBool b) = VInt (if b then 1 else 0)"
| "hash_key v = v"

record conv_state =
  config :: val
  counters :: "counter_key \<rightharpoonup> val"
  log :: "log_event list"

definition delete_step :: "val \<Rightarrow> conv_state \<Rightarrow> py_error + conv_state" where
  "delete_step path_to_delete st =
     (case as_path path_to_delete of
        Inl e \<Rightarrow> Inl e
      | Inr p \<Rightarrow> Inr (st\<lparr>config := delete_nested_value (config st) p\<rparr>))"

definition rename_step :: "val \<times> val \<Rightarrow> conv_state \<Rightarrow> py_error + conv_state" where
  "rename_step item st =
     (case as_path (fst item) of
        Inl e \<Rightarrow> Inl e
      | Inr old_path \<Rightarrow>
        (let v = get_nested_value (config st) old_path in
         if v \<noteq> VNone then
           (case as_path (snd item) of
              Inl e \<Rightarrow> Inl e
            | Inr new_path \<Rightarrow>
              (case set_nested_value (config st) new_path v of
                 Inl e \<Rightarrow> Inl e
               | Inr c \<Rightarrow> Inr (st\<lparr>config := delete_nested_value c old_path\<rparr>)))
         else Inr st))"

text \<open>The last line of the body of the \<^verbatim>\<open>set\<close> loop.\<close>

definition set_final :: "val \<Rightarrow> val \<Rightarrow> conv_state \<Rightarrow> py_error + conv_state" where
  "set_final path final_value st =
     (case as_path path of
        Inl e \<Rightarrow> Inl e
      | Inr p \<Rightarrow>
        (case set_nested_value (config st) p final_value of
           Inl e \<Rightarrow> Inl e
         | Inr c \<Rightarrow> Inr (st\<lparr>config := c\<rparr>)))"

definition set_step :: "pylib \<Rightarrow> dict \<Rightarrow> val \<times> val \<Rightarrow> conv_state \<Rightarrow> py_error + conv_state" where
  "set_step L context item st =
     (let path = fst item; value_config = snd item in
      case value_config of
        VDict vc \<Rightarrow>
          if dict_has vc ''expression'' then
            (case aeval_eval L SetTable (config st) context
                    (dict_get vc ''expression'' VNone) of
               Some final_value \<Rightarrow> set_final path final_value st
             | None \<Rightarrow>
                 if dict_has vc ''default_value''
                 then set_final path (dict_get vc ''default_value'' VNone)
                        (st\<lparr>log := log st @ [ErrSetExpression path, WarnSetDefault path]\<rparr>)
                 else Inr (st\<lparr>log := log st @ [ErrSetExpression path]\<rparr>))
          else set_final path value_config st
      | _ \<Rightarrow> set_final path value_config st)"

text \<open>\<^verbatim>\<open>x if isinstance(x, list) else [x]\<close>.\<close>

definition as_list :: "val \<Rightarrow> val list" where
  "as_list v = (case v of VList xs \<Rightarrow> xs | _ \<Rightarrow> [v])"

text \<open>
  The bodies of the \<^verbatim>\<open>append\<close> and \<^verbatim>\<open>prepend\<close> loops. \<^verbatim>\<open>current_list\<close> is the
  list object that lives at the path (after \<^verbatim>\<open>set_nested_value\<close> put the new empty
  list there, when there was none), so extending it in place is writing the longer
  list at the path.
\<close>

definition append_step :: "val \<times> val \<Rightarrow> conv_state \<Rightarrow> py_error + conv_state" where
  "append_step item st =
     (case as_path (fst item) of
        Inl e \<Rightarrow> Inl e
      | Inr p \<Rightarrow>
        (let elements_to_add = as_list (snd item) in
         case get_nested_value (config st) p of
           VNone \<Rightarrow>
             (case set_nested_value (config st) p (VList []) of
                Inl e \<Rightarrow> Inl e
              | Inr c \<Rightarrow>
                (case set_nested_value c p (VList ([] @ elements_to_add)) of
                   Inl e \<Rightarrow> Inl e
                 | Inr c' \<Rightarrow> Inr (st\<lparr>config := c'\<rparr>)))
         | VList current_list \<Rightarrow>
             (case set_nested_value (config st) p (VList (current_list @ elements_to_add)) of
                Inl e \<Rightarrow> Inl e
              | Inr c' \<Rightarrow> Inr (st\<lparr>config := c'\<rparr>))
         | _ \<Rightarrow> Inr (st\<lparr>log := log st @ [WarnAppendNotList (fst item)]\<rparr>)))"

definition prepend_step :: "val \<times> val \<Rightarrow> conv_state \<Rightarrow> py_error + conv_state" where
  "prepend_step item st =
     (case as_path (fst item) of
        Inl e \<Rightarrow> Inl e
      | Inr p \<Rightarrow>
        (let elements_to_add = as_list (snd item) in
         case get_nested_value (config st) p of
           VNone \<Rightarrow>
             (case set_nested_value (config st) p (VList []) of
                Inl e \<Rightarrow> Inl e
              | Inr c \<Rightarrow>
                (case set_nested_value c p (VList (elements_to_add @ [])) of
                   Inl e \<Rightarrow> Inl e
                 | Inr c' \<Rightarrow> Inr (st\<lparr>config := c'\<rparr>)))
         | VList current_list \<Rightarrow>
             (case set_nested_value (config st) p (VList (elements_to_add @ current_list)) of
                Inl e \<Rightarrow> Inl e
              | Inr c' \<Rightarrow> Inr (st\<lparr>config := c'\<rparr>))
         | _ \<Rightarrow> Inr (st\<lparr>log := log st @ [WarnPrependNotList (fst item)]\<rparr>)))"

text \<open>
  The \<^verbatim>\<open>sequence\<close> loop, in the order of the source: the counter key (lines 188-201,
  \<open>None\<close> for the unnamed rule without an id), the initial value of a new counter
  (lines 208-212), the value to write (lines 218-222).
\<close>

definition sequence_counter_key :: "pylib \<Rightarrow> val \<Rightarrow> val \<Rightarrow> val \<Rightarrow> counter_key option" where
  "sequence_counter_key L rule_name path sequence_id =
     (if py_truthy sequence_id then Some (SharedKey (''shared_id_'' @ py_str L sequence_id))
      else if rule_name = VStr ''Unnamed Rule'' then None
      else Some (IsolatedKey (hash_key rule_name) (hash_key path)))"

text \<open>
  Looking a counter key up hashes it: a tuple with a list or dict in it raises
  (\<open>hash_key\<close> leaves lists and dicts as they are).
\<close>

fun key_hashable :: "counter_key \<Rightarrow> bool" where
  "key_hashable (SharedKey s) = True"
| "key_hashable (IsolatedKey rule_name path) = (is_hashable rule_name \<and> is_hashable path)"

type_synonym overrides = "(string \<times> int) list"

definition sequence_initial :: "overrides \<Rightarrow> val \<Rightarrow> val \<Rightarrow> py_error + val" where
  "sequence_initial sequence_overrides start_value override_key =
     (if sequence_overrides \<noteq> [] then
        (if \<not> is_hashable override_key then Inl TypeError
         else
           (case override_key of
              VStr k \<Rightarrow>
                (case map_of sequence_overrides k of
                   Some i \<Rightarrow> Inr (VInt i)
                 | None \<Rightarrow> Inr start_value)
            | _ \<Rightarrow> Inr start_value))
      else Inr start_value)"

definition sequence_render :: "pylib \<Rightarrow> val \<Rightarrow> val \<Rightarrow> val" where
  "sequence_render L format_string current_value =
     (case format_string of
        VStr f \<Rightarrow>
          if f \<noteq> [] then VStr (replace_all ''{counter}'' (py_str L current_value) f)
          else current_value
      | _ \<Rightarrow> current_value)"

definition sequence_step ::
  "pylib \<Rightarrow> overrides \<Rightarrow> val \<Rightarrow> val \<times> val \<Rightarrow> conv_state \<Rightarrow> py_error + conv_state" where
  "sequence_step L sequence_overrides rule_name item st =
     (let path = fst item in
      case snd item of
        VDict sequence_info \<Rightarrow>
          (let sequence_id = dict_get sequence_info ''id'' VNone in
           case sequence_counter_key L rule_name path sequence_id of
             None \<Rightarrow>
               Inr (st\<lparr>log := log st @ [ErrSequenceUnnamed path, ErrSequenceUnnamedHint]\<rparr>)
           | Some counter_key \<Rightarrow>
               (let start_value = dict_get sequence_info ''start'' (VInt 0);
                    step_value = dict_get sequence_info ''step'' (VInt 1);
                    format_string = dict_get sequence_info ''format'' VNone
                in if \<not> key_hashable counter_key then Inl TypeError
                   else
                     (case (case counters st counter_key of
                              Some c \<Rightarrow> Inr c
                            | None \<Rightarrow>
                                sequence_initial sequence_overrides start_value
                                  (if py_truthy sequence_id then sequence_id else path)) of
                        Inl e \<Rightarrow> Inl e
                      | Inr current_value \<Rightarrow>
                          (case set_final path
                                  (sequence_render L format_string current_value) st of
                             Inl e \<Rightarrow> Inl e
                           | Inr st' \<Rightarrow>
                               (case py_add current_value step_value of
                                  Inl e \<Rightarrow> Inl e
                                | Inr next_value \<Rightarrow>
                                    Inr (st'\<lparr>counters :=
                                           (counters st)(counter_key \<mapsto> next_value)\<rparr>))))))
      | _ \<Rightarrow> Inl AttributeError)"

text \<open>
  One \<^verbatim>\<open>if kind in actions:\<close> block of \<^verbatim>\<open>apply_actions\<close>: substitute the placeholders
  in the block, then run the loop body on every item. \<^verbatim>\<open>delete\<close> iterates over the
  processed value itself, the other kinds over its \<^verbatim>\<open>items()\<close>.
\<close>

definition then_err :: "py_error + 'a \<Rightarrow> ('a \<Rightarrow> py_error + 'b) \<Rightarrow> py_error + 'b" where
  "then_err m f = (case m of Inl e \<Rightarrow> Inl e | Inr x \<Rightarrow> f x)"

definition delete_phase :: "pylib \<Rightarrow> dict \<Rightarrow> dict \<Rightarrow> conv_state \<Rightarrow> py_error + conv_state" where
  "delete_phase L actions context st =
     (if dict_has actions ''delete'' then
        then_err (process_placeholders L (dict_get actions ''delete'' VNone) context)
          (\<lambda>processed. then_err (py_iter processed)
            (\<lambda>paths. fold_err delete_step paths st))
      else Inr st)"

definition items_phase ::
  "pylib \<Rightarrow> dict \<Rightarrow> dict \<Rightarrow> string \<Rightarrow> (val \<times> val \<Rightarrow> conv_state \<Rightarrow> py_error + conv_state)
     \<Rightarrow> conv_state \<Rightarrow> py_error + conv_state" where
  "items_phase L actions context kind body st =
     (if dict_has actions kind then
        then_err (process_placeholders L (dict_get actions kind VNone) context)
          (\<lambda>processed. then_err (py_items processed)
            (\<lambda>items. fold_err body items st))
      else Inr st)"

definition apply_actions ::
  "pylib \<Rightarrow> val \<Rightarrow> dict \<Rightarrow> val \<Rightarrow> overrides \<Rightarrow> conv_state \<Rightarrow> py_error + conv_state" where
  "apply_actions L actions context rule_name sequence_overrides st =
     (case actions of
        VDict acts \<Rightarrow>
          if py_truthy (dict_get acts ''skip'' (VBool False)) then Inr st
          else
            then_err (delete_phase L acts context st) (\<lambda>s1.
            then_err (items_phase L acts context ''rename'' rename_step s1) (\<lambda>s2.
            then_err (items_phase L acts context ''set'' (set_step L context) s2) (\<lambda>s3.
            then_err (items_phase L acts context ''append'' append_step s3) (\<lambda>s4.
            then_err (items_phase L acts context ''prepend'' prepend_step s4) (\<lambda>s5.
            items_phase L acts context ''sequence''
              (sequence_step L sequence_overrides rule_name) s5)))))
      | _ \<Rightarrow> Inl AttributeError)"

section \<open>Rule driver (converter.py, convert_single_file)\<close>

text \<open>
  \<^verbatim>\<open>[dep for dep in dependencies if dep not in executed_rules_for_item]\<close> is not empty.
  A single string stands for the list of it; testing membership in a set hashes \<open>dep\<close>.
\<close>

definition missing_deps :: "val \<Rightarrow> val list \<Rightarrow> py_error + bool" where
  "missing_deps dependencies executed =
     then_err (case dependencies of VStr d \<Rightarrow> Inr [dependencies] | _ \<Rightarrow> py_iter dependencies)
       (\<lambda>deps. if list_all is_hashable deps
                then Inr (list_ex (\<lambda>dep. dep \<notin> set executed) deps)
                else Inl TypeError)"

text \<open>The loop over \<^verbatim>\<open>rule['conditions']\<close>, left at the first condition that fails.\<close>

fun conditions_met ::
  "pylib \<Rightarrow> val \<Rightarrow> dict \<Rightarrow> val list \<Rightarrow> log_event list \<Rightarrow> py_error + (bool \<times> log_event list)" where
  "conditions_met L item_config context [] lg = Inr (True, lg)"
| "conditions_met L item_config context (condition # cs) lg =
     (case evaluate_condition L item_config condition context of
        Inl e \<Rightarrow> Inl e
      | Inr r \<Rightarrow>
          if fst r then conditions_met L item_config context cs (lg @ snd r)
          else Inr (False, lg @ snd r))"

text \<open>
  The body of \<^verbatim>\<open>for rule in nested_rules\<close>, on the state of the conversion and the set
  of the rules executed for this record.
\<close>

definition process_rule ::
  "pylib \<Rightarrow> dict \<Rightarrow> overrides \<Rightarrow> val \<Rightarrow> conv_state \<times> val list
     \<Rightarrow> py_error + (conv_state \<times> val list)" where
  "process_rule L final_context sequence_overrides rule acc =
     (let st = fst acc; executed = snd acc in
      case rule of
        VDict r \<Rightarrow>
          (let rule_name = dict_get r ''name'' (VStr ''Unnamed Rule'');
               rule_actions = dict_get r ''actions'' (VDict []);
               dependencies = dict_get r ''depends_on'' VNone
           in then_err (if py_truthy dependencies then missing_deps dependencies executed
                        else Inr False)
                (\<lambda>missing.
                   if missing then Inr acc
                   else
                     (case rule_actions of
                        VDict ra \<Rightarrow>
                          if py_truthy (dict_get ra ''skip'' (VBool False)) then Inr acc
                          else
                            then_err
                              (if dict_has r ''conditions'' then
                                 then_err (py_iter (dict_get r ''conditions'' VNone))
                                   (\<lambda>cs. conditions_met L (config st) final_context cs (log st))
                               else Inr (True, log st))
                              (\<lambda>met.
                                 if fst met then
                                   then_err
                                     (apply_actions L rule_actions final_context rule_name
                                        sequence_overrides (st\<lparr>log := snd met\<rparr>))
                                     (\<lambda>st'.
                                        let name = dict_get r ''name'' VNone in
                                        if py_truthy name then
                                          (if is_hashable name then Inr (st', executed @ [name])
                                           else Inl TypeError)
                                        else Inr (st', executed))
                                 else Inr (st\<lparr>log := snd met\<rparr>, executed))
                      | _ \<Rightarrow> Inl AttributeError)))
      | _ \<Rightarrow> Inl AttributeError)"

text \<open>
  The state of one file conversion: the output tree, the counters, the log.
  \<^verbatim>\<open>copy.deepcopy\<close> is the identity on values.
\<close>

record file_state =
  new_data :: dict
  sequence_counters :: "counter_key \<rightharpoonup> val"
  file_log :: "log_event list"

text \<open>\<^verbatim>\<open>new_data[content_key][content_id] = content_config_new\<close>.\<close>

definition store_item :: "dict \<Rightarrow> val \<Rightarrow> val \<Rightarrow> val \<Rightarrow> py_error + dict" where
  "store_item nd content_key content_id content_config_new =
     (case map_of nd content_key of
        Some (VDict g) \<Rightarrow>
          Inr (AList.update content_key (VDict (AList.update content_id content_config_new g)) nd)
      | Some _ \<Rightarrow> Inl TypeError
      | None \<Rightarrow> Inl KeyError)"

text \<open>The body of \<^verbatim>\<open>for content_id, content_config_old in contents_to_process.items()\<close>.\<close>

definition process_item ::
  "pylib \<Rightarrow> overrides \<Rightarrow> val \<Rightarrow> val \<Rightarrow> val \<Rightarrow> val \<Rightarrow> val \<times> val \<Rightarrow> file_state
     \<Rightarrow> py_error + file_state" where
  "process_item L sequence_overrides content_type nested_rules context_definitions
       content_key item fs =
     (let content_id = fst item; content_config_new = snd item;
          base_context = [(VStr ''content_id'', content_id),
                          (VStr ''content_type'', content_type)]
      in then_err (process_dynamic_context L context_definitions content_config_new
                     base_context (file_log fs))
           (\<lambda>ctx. then_err (py_iter nested_rules)
             (\<lambda>rules. then_err
                (fold_err (process_rule L (fst ctx) sequence_overrides) rules
                   (\<lparr>config = content_config_new, counters = sequence_counters fs,
                     log = snd ctx\<rparr>, []))
                (\<lambda>res. then_err
                   (store_item (new_data fs) content_key content_id (config (fst res)))
                   (\<lambda>nd. Inr \<lparr>new_data = nd,
                               sequence_counters = counters (fst res),
                               file_log = log (fst res)\<rparr>)))))"

text \<open>
  The content keys of a top-level rule: \<^verbatim>\<open>re.match(f"^{re.escape(base)}\d*$", k)\<close>
  holds when \<open>k\<close> is the base followed by decimal digits only (\<open>$\<close> also accepts one
  line feed at the very end). Digits are the ASCII ones here.
\<close>

definition is_digit :: "char \<Rightarrow> bool" where
  "is_digit c = (c \<in> set ''0123456789'')"

definition key_matches :: "string \<Rightarrow> string \<Rightarrow> bool" where
  "key_matches base k =
     (take (length base) k = base \<and>
      (let rest = drop (length base) k;
           digits = (if rest \<noteq> [] \<and> last rest = CHR 0x0A then butlast rest else rest)
       in list_all is_digit digits))"

definition content_key_base :: "string \<Rightarrow> string" where
  "content_key_base content_type =
     (if content_type \<noteq> [] \<and> last content_type = CHR ''s'' then content_type
      else content_type @ ''s'')"

text \<open>\<^verbatim>\<open>[k for k in old_data if re.match(..., k)]\<close>; a key that is no string raises.\<close>

fun matching_keys :: "string \<Rightarrow> val list \<Rightarrow> py_error + val list" where
  "matching_keys base [] = Inr []"
| "matching_keys base (k # ks) =
     (case k of
        VStr s \<Rightarrow>
          then_err (matching_keys base ks)
            (\<lambda>ms. Inr (if key_matches base s then k # ms else ms))
      | _ \<Rightarrow> Inl TypeError)"

text \<open>The content type of a top-level rule, once truthy, and the keys it selects.\<close>

definition rule_keys :: "val \<Rightarrow> val \<Rightarrow> py_error + val list" where
  "rule_keys old_data content_type =
     (case content_type of
        VStr t \<Rightarrow>
          then_err (py_iter old_data) (\<lambda>ks. matching_keys (content_key_base t) ks)
      | _ \<Rightarrow> Inl AttributeError)"

text \<open>\<^verbatim>\<open>old_data.get(content_key, {})\<close>.\<close>

definition old_group :: "val \<Rightarrow> val \<Rightarrow> py_error + val" where
  "old_group old_data content_key =
     (case old_data of
        VDict od \<Rightarrow>
          Inr (case map_of od content_key of Some g \<Rightarrow> g | None \<Rightarrow> VDict [])
      | _ \<Rightarrow> Inl AttributeError)"

text \<open>The first loop over the rules, which counts the items for the progress bar.\<close>

definition py_len :: "val \<Rightarrow> py_error + nat" where
  "py_len v =
     (case v of
        VStr s \<Rightarrow> Inr (length s)
      | VList xs \<Rightarrow> Inr (length xs)
      | VDict d \<Rightarrow> Inr (length d)
      | _ \<Rightarrow> Inl TypeError)"

definition count_rule :: "val \<Rightarrow> val \<Rightarrow> nat \<Rightarrow> py_error + nat" where
  "count_rule old_data top_level_rule total_items =
     (case top_level_rule of
        VDict r \<Rightarrow>
          (let content_type = dict_get r ''content'' VNone in
           if \<not> py_truthy content_type then Inr total_items
           else
             then_err (rule_keys old_data content_type)
               (\<lambda>keys. fold_err
                  (\<lambda>content_key n.
                     then_err (old_group old_data content_key)
                       (\<lambda>g. then_err (py_len g) (\<lambda>l. Inr (n + l))))
                  keys total_items))
      | _ \<Rightarrow> Inl AttributeError)"

text \<open>The body of \<^verbatim>\<open>for content_key in matching_keys\<close>.\<close>

definition process_group ::
  "pylib \<Rightarrow> overrides \<Rightarrow> val \<Rightarrow> val \<Rightarrow> val \<Rightarrow> val \<Rightarrow> val \<Rightarrow> file_state
     \<Rightarrow> py_error + file_state" where
  "process_group L sequence_overrides old_data content_type nested_rules context_definitions
       content_key fs =
     then_err (old_group old_data content_key)
       (\<lambda>contents_to_process.
          let fs0 = fs\<lparr>new_data := AList.update content_key (VDict []) (new_data fs)\<rparr> in
          if \<not> py_truthy contents_to_process then Inr fs0
          else
            then_err (py_items contents_to_process)
              (\<lambda>items. fold_err
                 (process_item L sequence_overrides content_type nested_rules
                    context_definitions content_key)
                 items fs0))"

text \<open>The body of the second \<^verbatim>\<open>for top_level_rule in rules_list\<close>.\<close>

definition process_top_rule ::
  "pylib \<Rightarrow> overrides \<Rightarrow> val \<Rightarrow> val \<Rightarrow> file_state \<Rightarrow> py_error + file_state" where
  "process_top_rule L sequence_overrides old_data top_level_rule fs =
     (case top_level_rule of
        VDict r \<Rightarrow>
          (let content_type = dict_get r ''content'' VNone;
               nested_rules = dict_get r ''rules'' (VList []);
               context_definitions = dict_get r ''context'' (VDict [])
           in if \<not> py_truthy content_type
              then Inr (fs\<lparr>file_log := file_log fs @
                          [WarnTopRuleNoContent (dict_get r ''name'' (VStr ''Unnamed Top Rule''))]\<rparr>)
              else
                then_err (rule_keys old_data content_type)
                  (\<lambda>keys. fold_err
                     (process_group L sequence_overrides old_data content_type nested_rules
                        context_definitions)
                     keys fs))
      | _ \<Rightarrow> Inl AttributeError)"

text \<open>
  \<^verbatim>\<open>convert_single_file\<close> between the load of the old file and the dump of the new one:
  from the parsed input tree, the rules list and the overrides to \<^verbatim>\<open>new_data\<close> and
  the log.
\<close>

definition convert_single_file ::
  "pylib \<Rightarrow> val \<Rightarrow> val \<Rightarrow> overrides \<Rightarrow> py_error + (val \<times> log_event list)" where
  "convert_single_file L old_data rules_list sequence_overrides =
     then_err (py_iter rules_list)
       (\<lambda>rules. then_err (fold_err (count_rule old_data) rules 0)
         (\<lambda>total_items. then_err
            (fold_err (process_top_rule L sequence_overrides old_data) rules
               \<lparr>new_data = [], sequence_counters = Map.empty, file_log = []\<rparr>)
            (\<lambda>fs. Inr (VDict (new_data fs), file_log fs))))"

section \<open>A library instance for concrete runs\<close>

text \<open>
  Concrete inputs need concrete library functions. In \<open>test_lib\<close> the YAML loader and
  the expression interpreter always fail, and \<open>re_match\<close> tests whether the string begins
  with the pattern, which is what \<^verbatim>\<open>re.match\<close> does for a pattern without
  metacharacters.
\<close>

definition test_lib :: pylib where
  "test_lib = \<lparr>yaml_safe_load = (\<lambda>s. None),
               re_match = (\<lambda>pat s. Some (take (length pat) s = pat)),
               py_repr = (\<lambda>v. []),
               aeval_eval = (\<lambda>t d c e. None)\<rparr>"

section \<open>The action order as the specification words it\<close>

text \<open>
  Section 4.6 of the specification: the applicator "executes, in this fixed order,
  whichever of the following are present in the action block: skip (if true, aborts all
  remaining actions for this rule), delete, rename, set, append, prepend, sequence".
  \<open>spec_apply_actions\<close> is that sentence: a skip test, then one pass over the list of
  the kinds, running a kind when the block has it. It is compared with
  \<open>apply_actions\<close> below.
\<close>

definition spec_action_order :: "string list" where
  "spec_action_order = [''delete'', ''rename'', ''set'', ''append'', ''prepend'', ''sequence'']"

definition spec_run_kind ::
  "pylib \<Rightarrow> dict \<Rightarrow> dict \<Rightarrow> val \<Rightarrow> overrides \<Rightarrow> string \<Rightarrow> conv_state
     \<Rightarrow> py_error + conv_state" where
  "spec_run_kind L acts context rule_name sequence_overrides kind st =
     (if \<not> dict_has acts kind then Inr st
      else if kind = ''delete'' then delete_phase L acts context st
      else if kind = ''rename'' then items_phase L acts context kind rename_step st
      else if kind = ''set'' then items_phase L acts context kind (set_step L context) st
      else if kind = ''append'' then items_phase L acts context kind append_step st
      else if kind = ''prepend'' then items_phase L acts context kind prepend_step st
      else if kind = ''sequence'' then
        items_phase L acts context kind (sequence_step L sequence_overrides rule_name) st
      else Inr st)"

definition spec_apply_actions ::
  "pylib \<Rightarrow> dict \<Rightarrow> dict \<Rightarrow> val \<Rightarrow> overrides \<Rightarrow> conv_state \<Rightarrow> py_error + conv_state" where
  "spec_apply_actions L acts context rule_name sequence_overrides st =
     (if py_truthy (dict_get acts ''skip'' (VBool False)) then Inr st
      else fold_err (spec_run_kind L acts context rule_name sequence_overrides)
             spec_action_order st)"

section \<open>The input tree\<close>

text \<open>
  The input of a conversion is a mapping from group keys to mappings from content ids
  to records. A Python dict has no key twice and the group keys of a YAML file are
  strings; \<open>input_tree\<close> says so of the association list. \<open>selects t k\<close> holds when a
  top-level rule with content type \<open>t\<close> picks the group key \<open>k\<close>.
\<close>

definition input_tree :: "dict \<Rightarrow> bool" where
  "input_tree od =
     (distinct (map fst od) \<and>
      list_all (\<lambda>kg. (case fst kg of VStr s \<Rightarrow> True | _ \<Rightarrow> False) \<and>
                     (case snd kg of VDict items \<Rightarrow> distinct (map fst items) | _ \<Rightarrow> False))
        od)"

definition selects :: "string \<Rightarrow> val \<Rightarrow> bool" where
  "selects t k = (case k of VStr s \<Rightarrow> key_matches (content_key_base t) s | _ \<Rightarrow> False)"

section \<open>The sequence actions of a conversion, as the driver runs them\<close>

text \<open>
  A \<open>seq_event\<close> is one run of the body of the \<^verbatim>\<open>sequence\<close> loop (lines 186-226) that
  returned normally: the rule name, the path and the sequence spec of the entry, the
  state the body found and the state it left.
\<close>

record seq_event =
  ev_rule :: val
  ev_path :: val
  ev_info :: dict
  ev_before :: conv_state
  ev_after :: conv_state

definition sequence_event ::
  "pylib \<Rightarrow> overrides \<Rightarrow> val \<Rightarrow> val \<times> val \<Rightarrow> conv_state \<Rightarrow> seq_event list" where
  "sequence_event L ov rule_name item st =
     (case snd item of
        VDict info \<Rightarrow>
          (case sequence_step L ov rule_name item st of
             Inl e \<Rightarrow> []
           | Inr st' \<Rightarrow>
               [\<lparr>ev_rule = rule_name, ev_path = fst item, ev_info = info,
                 ev_before = st, ev_after = st'\<rparr>])
      | _ \<Rightarrow> [])"

text \<open>
  The events of a loop: those of the body on the first element, then those of the rest of
  the loop from the state the body returns. The state is the one \<open>fold_err\<close> passes on;
  an error ends the loop and the events.
\<close>

fun fold_trace ::
  "('a \<Rightarrow> 's \<Rightarrow> 'e list) \<Rightarrow> ('a \<Rightarrow> 's \<Rightarrow> py_error + 's) \<Rightarrow> 'a list \<Rightarrow> 's \<Rightarrow> 'e list" where
  "fold_trace g f [] s = []"
| "fold_trace g f (x # xs) s =
     g x s @ (case f x s of Inl e \<Rightarrow> [] | Inr s' \<Rightarrow> fold_trace g f xs s')"

text \<open>
  The events of each function of the driver, from the innermost loop outwards. Each
  definition reads the arguments of the calls off the function it follows, and takes
  every state from the functions of the driver themselves.
\<close>

definition sequence_phase_trace ::
  "pylib \<Rightarrow> dict \<Rightarrow> dict \<Rightarrow> val \<Rightarrow> overrides \<Rightarrow> conv_state \<Rightarrow> seq_event list" where
  "sequence_phase_trace L acts context rule_name ov st =
     (if dict_has acts ''sequence'' then
        (case process_placeholders L (dict_get acts ''sequence'' VNone) context of
           Inl e \<Rightarrow> []
         | Inr processed \<Rightarrow>
             (case py_items processed of
                Inl e \<Rightarrow> []
              | Inr items \<Rightarrow>
                  fold_trace (sequence_event L ov rule_name) (sequence_step L ov rule_name)
                    items st))
      else [])"

text \<open>The state \<^verbatim>\<open>apply_actions\<close> reaches before its \<^verbatim>\<open>sequence\<close> block.\<close>

definition pre_sequence :: "pylib \<Rightarrow> dict \<Rightarrow> dict \<Rightarrow> conv_state \<Rightarrow> py_error + conv_state" where
  "pre_sequence L acts context st =
     then_err (delete_phase L acts context st) (\<lambda>s1.
     then_err (items_phase L acts context ''rename'' rename_step s1) (\<lambda>s2.
     then_err (items_phase L acts context ''set'' (set_step L context) s2) (\<lambda>s3.
     then_err (items_phase L acts context ''append'' append_step s3) (\<lambda>s4.
     items_phase L acts context ''prepend'' prepend_step s4))))"

definition actions_trace ::
  "pylib \<Rightarrow> val \<Rightarrow> dict \<Rightarrow> val \<Rightarrow> overrides \<Rightarrow> conv_state \<Rightarrow> seq_event list" where
  "actions_trace L actions context rule_name ov st =
     (case actions of
        VDict acts \<Rightarrow>
          if py_truthy (dict_get acts ''skip'' (VBool False)) then []
          else
            (case pre_sequence L acts context st of
               Inl e \<Rightarrow> []
             | Inr s5 \<Rightarrow> sequence_phase_trace L acts context rule_name ov s5)
      | _ \<Rightarrow> [])"

text \<open>
  The gates of \<^verbatim>\<open>process_rule\<close> (dependencies, skip flag, conditions): whether the
  actions of the rule are applied, and the state they are applied to or the rule
  leaves.
\<close>

definition rule_entry ::
  "pylib \<Rightarrow> dict \<Rightarrow> dict \<Rightarrow> conv_state \<times> val list \<Rightarrow> py_error + (bool \<times> conv_state)" where
  "rule_entry L final_context r acc =
     (let st = fst acc; executed = snd acc;
          rule_actions = dict_get r ''actions'' (VDict []);
          dependencies = dict_get r ''depends_on'' VNone
      in then_err (if py_truthy dependencies then missing_deps dependencies executed
                   else Inr False)
           (\<lambda>missing.
              if missing then Inr (False, st)
              else
                (case rule_actions of
                   VDict ra \<Rightarrow>
                     if py_truthy (dict_get ra ''skip'' (VBool False)) then Inr (False, st)
                     else
                       then_err
                         (if dict_has r ''conditions'' then
                            then_err (py_iter (dict_get r ''conditions'' VNone))
                              (\<lambda>cs. conditions_met L (config st) final_context cs (log st))
                          else Inr (True, log st))
                         (\<lambda>met. Inr (fst met, st\<lparr>log := snd met\<rparr>))
                 | _ \<Rightarrow> Inl AttributeError)))"

definition rule_trace ::
  "pylib \<Rightarrow> dict \<Rightarrow> overrides \<Rightarrow> val \<Rightarrow> conv_state \<times> val list \<Rightarrow> seq_event list" where
  "rule_trace L final_context ov rule acc =
     (case rule of
        VDict r \<Rightarrow>
          (case rule_entry L final_context r acc of
             Inl e \<Rightarrow> []
           | Inr entry \<Rightarrow>
               if fst entry
               then actions_trace L (dict_get r ''actions'' (VDict [])) final_context
                      (dict_get r ''name'' (VStr ''Unnamed Rule'')) ov (snd entry)
               else [])
      | _ \<Rightarrow> [])"

definition item_trace ::
  "pylib \<Rightarrow> overrides \<Rightarrow> val \<Rightarrow> val \<Rightarrow> val \<Rightarrow> val \<Rightarrow> val \<times> val \<Rightarrow> file_state
     \<Rightarrow> seq_event list" where
  "item_trace L ov content_type nested_rules context_definitions content_key item fs =
     (case process_dynamic_context L context_definitions (snd item)
             [(VStr ''content_id'', fst item), (VStr ''content_type'', content_type)]
             (file_log fs) of
        Inl e \<Rightarrow> []
      | Inr ctx \<Rightarrow>
          (case py_iter nested_rules of
             Inl e \<Rightarrow> []
           | Inr rules \<Rightarrow>
               fold_trace (rule_trace L (fst ctx) ov) (process_rule L (fst ctx) ov) rules
                 (\<lparr>config = snd item, counters = sequence_counters fs, log = snd ctx\<rparr>, [])))"

definition group_trace ::
  "pylib \<Rightarrow> overrides \<Rightarrow> val \<Rightarrow> val \<Rightarrow> val \<Rightarrow> val \<Rightarrow> val \<Rightarrow> file_state
     \<Rightarrow> seq_event list" where
  "group_trace L ov old_data content_type nested_rules context_definitions content_key fs =
     (case old_group old_data content_key of
        Inl e \<Rightarrow> []
      | Inr contents_to_process \<Rightarrow>
          if \<not> py_truthy contents_to_process then []
          else
            (case py_items contents_to_process of
               Inl e \<Rightarrow> []
             | Inr items \<Rightarrow>
                 fold_trace
                   (item_trace L ov content_type nested_rules context_definitions content_key)
                   (process_item L ov content_type nested_rules context_definitions
                      content_key)
                   items
                   (fs\<lparr>new_data := AList.update content_key (VDict []) (new_data fs)\<rparr>)))"

definition top_rule_trace ::
  "pylib \<Rightarrow> overrides \<Rightarrow> val \<Rightarrow> val \<Rightarrow> file_state \<Rightarrow> seq_event list" where
  "top_rule_trace L ov old_data top_level_rule fs =
     (case top_level_rule of
        VDict r \<Rightarrow>
          if \<not> py_truthy (dict_get r ''content'' VNone) then []
          else
            (case rule_keys old_data (dict_get r ''content'' VNone) of
               Inl e \<Rightarrow> []
             | Inr keys \<Rightarrow>
                 fold_trace
                   (group_trace L ov old_data (dict_get r ''content'' VNone)
                      (dict_get r ''rules'' (VList [])) (dict_get r ''context'' (VDict [])))
                   (process_group L ov old_data (dict_get r ''content'' VNone)
                      (dict_get r ''rules'' (VList [])) (dict_get r ''context'' (VDict [])))
                   keys fs)
      | _ \<Rightarrow> [])"

text \<open>
  The sequence actions of \<^verbatim>\<open>convert_single_file\<close>, in application order, from the
  empty \<^verbatim>\<open>sequence_counters\<close> the function starts with.
\<close>

definition file_trace :: "pylib \<Rightarrow> val \<Rightarrow> val \<Rightarrow> overrides \<Rightarrow> seq_event list" where
  "file_trace L old_data rules_list ov =
     (case py_iter rules_list of
        Inl e \<Rightarrow> []
      | Inr rules \<Rightarrow>
          (case fold_err (count_rule old_data) rules 0 of
             Inl e \<Rightarrow> []
           | Inr total_items \<Rightarrow>
               fold_trace (top_rule_trace L ov old_data) (process_top_rule L ov old_data)
                 rules \<lparr>new_data = [], sequence_counters = Map.empty, file_log = []\<rparr>))"

text \<open>
  What an event is bound to and what it asks for, read off the entry as the loop body
  reads it; \<open>ev_written\<close> is the value found at the path of the entry in the record the
  body leaves.
\<close>

definition ev_key :: "pylib \<Rightarrow> seq_event \<Rightarrow> counter_key option" where
  "ev_key L e =
     sequence_counter_key L (ev_rule e) (ev_path e) (dict_get (ev_info e) ''id'' VNone)"

definition ev_override_key :: "seq_event \<Rightarrow> val" where
  "ev_override_key e =
     (if py_truthy (dict_get (ev_info e) ''id'' VNone)
      then dict_get (ev_info e) ''id'' VNone else ev_path e)"

definition ev_start :: "seq_event \<Rightarrow> val" where
  "ev_start e = dict_get (ev_info e) ''start'' (VInt 0)"

definition ev_step :: "seq_event \<Rightarrow> val" where
  "ev_step e = dict_get (ev_info e) ''step'' (VInt 1)"

definition ev_step_int :: "seq_event \<Rightarrow> int" where
  "ev_step_int e = (case ev_step e of VInt s \<Rightarrow> s | _ \<Rightarrow> 0)"

definition ev_format :: "seq_event \<Rightarrow> val" where
  "ev_format e = dict_get (ev_info e) ''format'' VNone"

definition ev_written :: "seq_event \<Rightarrow> val" where
  "ev_written e =
     (case ev_path e of VStr p \<Rightarrow> get_nested_value (config (ev_after e)) p | _ \<Rightarrow> VNone)"

text \<open>\<open>partial_sums v [s0, s1, ...]\<close> is \<open>[v, v + s0, v + s0 + s1, ...]\<close>, one per step.\<close>

fun partial_sums :: "int \<Rightarrow> int list \<Rightarrow> int list" where
  "partial_sums v [] = []"
| "partial_sums v (s # ss) = v # partial_sums (v + s) ss"

text \<open>
  A list of events is chained from the counters \<open>cs\<close> when every event is a run of
  \<open>sequence_step\<close> from its own before-state to its own after-state, the first event
  finds \<open>cs\<close>, and every later event finds the counters the event before it left.
  \<open>chain_end\<close> is the counters the last event leaves.
\<close>

fun chained :: "pylib \<Rightarrow> overrides \<Rightarrow> (counter_key \<rightharpoonup> val) \<Rightarrow> seq_event list \<Rightarrow> bool" where
  "chained L ov cs [] = True"
| "chained L ov cs (e # es) =
     (counters (ev_before e) = cs \<and>
      sequence_step L ov (ev_rule e) (ev_path e, VDict (ev_info e)) (ev_before e)
        = Inr (ev_after e) \<and>
      chained L ov (counters (ev_after e)) es)"

fun chain_end :: "(counter_key \<rightharpoonup> val) \<Rightarrow> seq_event list \<Rightarrow> (counter_key \<rightharpoonup> val)" where
  "chain_end cs [] = cs"
| "chain_end cs (e # es) = chain_end (counters (ev_after e)) es"

section \<open>Path addressing: lemmas\<close>

lemma split_dot_nonempty: "split_dot p \<noteq> []"
  by (induction p) (auto split: list.splits)

lemma set_walk_Cons:
  "parts \<noteq> [] \<Longrightarrow> set_walk current (part # parts) v =
     AList.update (VStr part)
       (VDict (set_walk (case map_of current (VStr part) of Some (VDict d) \<Rightarrow> d | _ \<Rightarrow> [])
                 parts v))
       current"
  by (cases parts) simp_all

lemma get_walk_VNone: "get_walk VNone parts = VNone"
  by (cases parts) simp_all

lemma get_walk_append:
  "get_walk data (pre @ rest) = get_walk (get_walk data pre) rest"
  by (induction pre arbitrary: data)
     (auto simp: get_walk_VNone split: val.splits option.splits)

lemma get_walk_set_walk:
  "parts \<noteq> [] \<Longrightarrow> get_walk (VDict (set_walk d parts v)) parts = v"
proof (induction d parts v rule: set_walk.induct)
  case (3 current part q ps v)
  then show ?case by (simp add: update_conv' Let_def)
qed (simp_all add: update_conv')

lemma get_walk_set_walk_prefix:
  "rest \<noteq> [] \<Longrightarrow>
   get_walk (VDict (set_walk d (pre @ rest) v)) pre =
     VDict (set_walk (case get_walk (VDict d) pre of VDict d' \<Rightarrow> d' | _ \<Rightarrow> []) rest v)"
proof (induction pre arbitrary: d)
  case Nil
  then show ?case by simp
next
  case (Cons p ps)
  let ?sub = "case map_of d (VStr p) of Some (VDict d') \<Rightarrow> d' | _ \<Rightarrow> []"
  have ne: "ps @ rest \<noteq> []" using Cons.prems by simp
  have step: "get_walk (VDict (set_walk d ((p # ps) @ rest) v)) (p # ps)
        = get_walk (VDict (set_walk ?sub (ps @ rest) v)) ps"
    using ne by (simp add: set_walk_Cons update_conv')
  have sub: "(case get_walk (VDict ?sub) ps of VDict d' \<Rightarrow> d' | _ \<Rightarrow> [])
        = (case get_walk (VDict d) (p # ps) of VDict d' \<Rightarrow> d' | _ \<Rightarrow> [])"
    by (cases ps) (auto split: option.splits val.splits)
  show ?case using step Cons.IH[OF Cons.prems, of ?sub] sub by simp
qed

lemma get_after_set:
  "set_nested_value (VDict d) p v = Inr (VDict (set_walk d (split_dot p) v)) \<and>
   get_nested_value (VDict (set_walk d (split_dot p) v)) p = v"
  by (simp add: set_nested_value_def get_nested_value_def get_walk_set_walk split_dot_nonempty)

lemma get_walk_missing:
  assumes "\<forall>m. get_walk data pre = VDict m \<longrightarrow> map_of m (VStr part) = None"
  shows "get_walk data (pre @ part # rest) = VNone"
proof -
  have "get_walk (get_walk data pre) (part # rest) = VNone"
    using assms by (cases "get_walk data pre") (simp_all split: option.splits)
  then show ?thesis by (simp add: get_walk_append)
qed

section \<open>Path addressing: write then read, and absence\<close>

text \<open>
  C7. For every record \<open>d\<close>, dotted path \<open>p\<close> and value \<open>v\<close>, \<open>set\<close> succeeds and a
  following \<open>get\<close> at \<open>p\<close> returns \<open>v\<close>. After the \<open>set\<close> every proper prefix of the path
  leads to a mapping, and where the old record had no mapping at such a prefix (the node
  was missing or held something else) the node is a fresh mapping that holds nothing but
  the rest of the path.
\<close>

theorem set_nested_value_then_get:
  "\<exists>r. set_nested_value (VDict d) p v = Inr r \<and> get_nested_value r p = v \<and>
       (\<forall>pre rest. split_dot p = pre @ rest \<and> rest \<noteq> [] \<longrightarrow>
          (\<exists>m. get_walk r pre = VDict m)) \<and>
       (\<forall>pre rest. split_dot p = pre @ rest \<and> rest \<noteq> [] \<and>
          (\<forall>m. get_walk (VDict d) pre \<noteq> VDict m) \<longrightarrow>
          get_walk r pre = VDict (set_walk [] rest v))"
proof -
  let ?r = "VDict (set_walk d (split_dot p) v)"
  have a: "set_nested_value (VDict d) p v = Inr ?r" "get_nested_value ?r p = v"
    using get_after_set[of d p v] by simp_all
  have b: "\<exists>m. get_walk ?r pre = VDict m" if "split_dot p = pre @ rest" "rest \<noteq> []"
    for pre rest
    using that get_walk_set_walk_prefix[of rest d pre v] by simp
  have c: "get_walk ?r pre = VDict (set_walk [] rest v)"
    if "split_dot p = pre @ rest" "rest \<noteq> []" "\<forall>m. get_walk (VDict d) pre \<noteq> VDict m"
    for pre rest
  proof -
    have "(case get_walk (VDict d) pre of VDict d' \<Rightarrow> d' | _ \<Rightarrow> []) = []"
      using that(3) by (cases "get_walk (VDict d) pre") simp_all
    then show ?thesis
      using that(1,2) get_walk_set_walk_prefix[of rest d pre v] by simp
  qed
  show ?thesis using a b c by blast
qed

theorem set_nested_value_then_get_witness:
  "set_nested_value (VDict [(VStr ''a'', VInt 5)]) ''a.b'' (VInt 1)
     = Inr (VDict [(VStr ''a'', VDict [(VStr ''b'', VInt 1)])]) \<and>
   get_nested_value (VDict [(VStr ''a'', VDict [(VStr ''b'', VInt 1)])]) ''a.b'' = VInt 1 \<and>
   split_dot ''a.b'' = [''a''] @ [''b''] \<and>
   (\<forall>m. get_walk (VDict [(VStr ''a'', VInt 5)]) [''a''] \<noteq> VDict m) \<and>
   get_walk (VDict [(VStr ''a'', VDict [(VStr ''b'', VInt 1)])]) [''a'']
     = VDict (set_walk [] [''b''] (VInt 1))"
  using set_nested_value_then_get[of "[(VStr ''a'', VInt 5)]" "''a.b''" "VInt 1"]
  by (simp add: set_nested_value_def get_nested_value_def)

text \<open>
  C9. \<open>get_nested_value\<close> is a total function into values: no input makes it raise.
  When a segment of the path is missing from the mapping reached so far, or the node
  reached so far is no mapping, it returns \<open>VNone\<close>. \<open>VNone\<close> is none of the empty or
  zero values a field can hold (empty string, 0, False, empty sequence, empty mapping):
  read back from a field that holds one of them, \<open>get\<close> returns that value and not
  \<open>VNone\<close>.
\<close>

theorem get_nested_value_sentinel:
  "(split_dot p = pre @ part # rest \<and>
      (\<forall>m. get_walk data pre = VDict m \<longrightarrow> map_of m (VStr part) = None)
      \<longrightarrow> get_nested_value data p = VNone) \<and>
   (e \<in> {VStr [], VInt 0, VBool False, VList [], VDict []} \<longrightarrow>
      (\<exists>r. set_nested_value (VDict d) q e = Inr r \<and> get_nested_value r q = e \<and>
           get_nested_value r q \<noteq> VNone))"
proof (intro conjI impI)
  assume h: "split_dot p = pre @ part # rest \<and>
      (\<forall>m. get_walk data pre = VDict m \<longrightarrow> map_of m (VStr part) = None)"
  then show "get_nested_value data p = VNone"
    using get_walk_missing[of data pre part rest] by (simp add: get_nested_value_def)
next
  assume "e \<in> {VStr [], VInt 0, VBool False, VList [], VDict []}"
  then have "e \<noteq> VNone" by auto
  then show "\<exists>r. set_nested_value (VDict d) q e = Inr r \<and> get_nested_value r q = e \<and>
           get_nested_value r q \<noteq> VNone"
    using get_after_set[of d q e] by auto
qed

theorem get_nested_value_sentinel_witness:
  "split_dot ''a.b'' = [''a''] @ ''b'' # [] \<and>
   get_walk (VDict [(VStr ''a'', VInt 5)]) [''a''] = VInt 5 \<and>
   get_nested_value (VDict [(VStr ''a'', VInt 5)]) ''a.b'' = VNone \<and>
   VInt 0 \<in> {VStr [], VInt 0, VBool False, VList [], VDict []} \<and>
   (\<exists>r. set_nested_value (VDict []) ''n'' (VInt 0) = Inr r \<and>
        get_nested_value r ''n'' = VInt 0 \<and> get_nested_value r ''n'' \<noteq> VNone)"
  using get_nested_value_sentinel[of "''a.b''" "[''a'']" "''b''" "[]"
          "VDict [(VStr ''a'', VInt 5)]" "VInt 0" "[]" "''n''"]
  by (simp add: get_nested_value_def)

section \<open>Condition evaluator\<close>

lemmas condition_defs =
  evaluate_condition_def condition_checks_def check_regex_def check_range_def
  dict_has_def dict_get_def

text \<open>
  C4, as the spec states it, fails: a field that is present and holds null reads as
  \<open>VNone\<close>, the value \<open>get_nested_value\<close> also returns for a missing field, so a
  condition with \<^verbatim>\<open>exists: false\<close> passes on it.
\<close>

theorem exists_false_passes_on_null_counterexample:
  "map_of [(VStr ''a'', VNone)] (VStr ''a'') = Some VNone \<and>
   evaluate_condition test_lib (VDict [(VStr ''a'', VNone)])
     (VDict [(VStr ''path'', VStr ''a''), (VStr ''exists'', VBool False)]) []
     = Inr (True, [])"
  by (simp add: condition_defs get_nested_value_def)

text \<open>
  C4, amended. Take a condition whose processed form has a non-empty string path and
  \<^verbatim>\<open>exists: false\<close>. If \<open>get\<close> reads a value other than \<open>VNone\<close> at the path (the
  field is present and not null), the condition fails, whatever else it asks for. If
  \<open>get\<close> reads \<open>VNone\<close> (the field is missing, or present and null) and the condition
  asks for no value, pattern or range, it passes.
\<close>

theorem exists_false_condition:
  assumes "process_placeholders L condition context = Inr (VDict pc)"
    and "dict_get pc ''path'' VNone = VStr p" and "p \<noteq> []"
    and "map_of pc (VStr ''exists'') = Some (VBool False)"
  shows "(get_nested_value item p \<noteq> VNone \<longrightarrow>
            evaluate_condition L item condition context = Inr (False, [])) \<and>
         (get_nested_value item p = VNone \<and> \<not> dict_has pc ''value'' \<and>
            \<not> dict_has pc ''regex_match'' \<and> \<not> dict_has pc ''min'' \<and>
            \<not> dict_has pc ''max'' \<longrightarrow>
            evaluate_condition L item condition context = Inr (True, []))"
  using assms by (simp add: condition_defs)

theorem exists_false_condition_witness:
  "evaluate_condition test_lib (VDict [(VStr ''a'', VInt 5)])
     (VDict [(VStr ''path'', VStr ''a''), (VStr ''exists'', VBool False)]) []
     = Inr (False, []) \<and>
   evaluate_condition test_lib (VDict [(VStr ''b'', VInt 5)])
     (VDict [(VStr ''path'', VStr ''a''), (VStr ''exists'', VBool False)]) []
     = Inr (True, [])"
  using exists_false_condition[of test_lib
          "VDict [(VStr ''path'', VStr ''a''), (VStr ''exists'', VBool False)]" "[]"
          "[(VStr ''path'', VStr ''a''), (VStr ''exists'', VBool False)]" "''a''"
          "VDict [(VStr ''a'', VInt 5)]"]
        exists_false_condition[of test_lib
          "VDict [(VStr ''path'', VStr ''a''), (VStr ''exists'', VBool False)]" "[]"
          "[(VStr ''path'', VStr ''a''), (VStr ''exists'', VBool False)]" "''a''"
          "VDict [(VStr ''b'', VInt 5)]"]
  by (simp add: dict_get_def dict_has_def get_nested_value_def)

text \<open>
  C5. When the path of the processed condition is a string at which \<open>get\<close> reads no
  value, and the condition has any of \<^verbatim>\<open>value\<close>, \<^verbatim>\<open>regex_match\<close>, \<^verbatim>\<open>min\<close>, \<^verbatim>\<open>max\<close>,
  the condition evaluates to false, with or without an \<^verbatim>\<open>exists\<close> clause.
\<close>

theorem absent_value_fails_checks:
  assumes "process_placeholders L condition context = Inr (VDict pc)"
    and "dict_get pc ''path'' VNone = VStr p"
    and "get_nested_value item p = VNone"
    and "dict_has pc ''value'' \<or> dict_has pc ''regex_match'' \<or>
         dict_has pc ''min'' \<or> dict_has pc ''max''"
  shows "\<exists>w. evaluate_condition L item condition context = Inr (False, w)"
  using assms by (auto simp add: evaluate_condition_def condition_checks_def Let_def)

theorem absent_value_fails_checks_witness:
  "get_nested_value (VDict [(VStr ''b'', VInt 5)]) ''a'' = VNone \<and>
   dict_has [(VStr ''path'', VStr ''a''), (VStr ''min'', VInt 3)] ''min'' \<and>
   (\<exists>w. evaluate_condition test_lib (VDict [(VStr ''b'', VInt 5)])
          (VDict [(VStr ''path'', VStr ''a''), (VStr ''min'', VInt 3)]) []
          = Inr (False, w))"
  using absent_value_fails_checks[of test_lib
          "VDict [(VStr ''path'', VStr ''a''), (VStr ''min'', VInt 3)]" "[]"
          "[(VStr ''path'', VStr ''a''), (VStr ''min'', VInt 3)]" "''a''"
          "VDict [(VStr ''b'', VInt 5)]"]
  by (simp add: dict_get_def dict_has_def get_nested_value_def)



section \<open>Action applicator: append\<close>

lemma get_set_walk: "get_nested_value (VDict (set_walk d (split_dot p) v)) p = v"
  using get_after_set[of d p v] by simp

lemma append_step_cases:
  assumes "config st = VDict d"
  shows "append_step (VStr p, e) st =
     (case get_nested_value (config st) p of
        VNone \<Rightarrow>
          Inr (st\<lparr>config := VDict (set_walk (set_walk d (split_dot p) (VList []))
                                 (split_dot p) (VList (as_list e)))\<rparr>)
      | VList cur \<Rightarrow>
          Inr (st\<lparr>config := VDict (set_walk d (split_dot p) (VList (cur @ as_list e)))\<rparr>)
      | _ \<Rightarrow> Inr (st\<lparr>log := log st @ [WarnAppendNotList (VStr p)]\<rparr>))"
  using assms
  by (simp add: append_step_def as_path_def set_nested_value_def Let_def split: val.splits)

lemma apply_actions_only_append:
  assumes "\<not> py_truthy (dict_get acts ''skip'' (VBool False))"
    and "\<not> dict_has acts ''delete''" "\<not> dict_has acts ''rename''"
    and "\<not> dict_has acts ''set''" "\<not> dict_has acts ''prepend''"
    and "\<not> dict_has acts ''sequence''"
    and "map_of acts (VStr ''append'') = Some blk"
    and "process_placeholders L blk context = Inr (VDict [(VStr p, e)])"
  shows "apply_actions L (VDict acts) context rn ov st = append_step (VStr p, e) st"
  using assms
  by (simp add: apply_actions_def delete_phase_def items_phase_def then_err_def py_items_def
        dict_has_def dict_get_def split: sum.splits)

lemmas action_defs =
  apply_actions_def delete_phase_def items_phase_def then_err_def py_items_def py_iter_def
  dict_has_def dict_get_def as_path_def set_nested_value_def get_nested_value_def as_list_def

text \<open>
  C8, as the spec states it, fails in its last case: a path that holds null holds a
  non-sequence, yet \<open>append\<close> reads it as absent and puts the new list there.
\<close>

theorem append_on_null_counterexample:
  "map_of [(VStr ''tags'', VNone)] (VStr ''tags'') = Some VNone \<and>
   apply_actions test_lib
     (VDict [(VStr ''append'', VDict [(VStr ''tags'', VStr ''rare'')])]) []
     (VStr ''r'') []
     \<lparr>config = VDict [(VStr ''tags'', VNone)], counters = Map.empty, log = []\<rparr>
   = Inr \<lparr>config = VDict [(VStr ''tags'', VList [VStr ''rare''])],
          counters = Map.empty, log = []\<rparr>"
  by (simp add: action_defs append_step_def)

text \<open>
  C8, amended. Take an action block with an \<^verbatim>\<open>append\<close> for one path \<open>p\<close> and no other
  action, applied to a record (a mapping). If \<open>get\<close> reads no value at \<open>p\<close> (the path
  is missing, or holds null), afterwards \<open>p\<close> holds the sequence of exactly the added
  values in order, a single value counting as a sequence of one. If \<open>p\<close> holds a
  sequence, afterwards it holds that sequence followed by the added values in order. If
  \<open>p\<close> holds anything else that is not null, the record stays as it is, a warning is
  logged and the action returns normally.
\<close>

theorem append_action:
  assumes "config st = VDict d"
    and "\<not> py_truthy (dict_get acts ''skip'' (VBool False))"
    and "\<not> dict_has acts ''delete''" "\<not> dict_has acts ''rename''"
    and "\<not> dict_has acts ''set''" "\<not> dict_has acts ''prepend''"
    and "\<not> dict_has acts ''sequence''"
    and "map_of acts (VStr ''append'') = Some blk"
    and "process_placeholders L blk context = Inr (VDict [(VStr p, e)])"
  shows "(get_nested_value (config st) p = VNone \<longrightarrow>
           (\<exists>c. apply_actions L (VDict acts) context rn ov st = Inr (st\<lparr>config := c\<rparr>) \<and>
                get_nested_value c p = VList (as_list e))) \<and>
         (\<forall>cur. get_nested_value (config st) p = VList cur \<longrightarrow>
           (\<exists>c. apply_actions L (VDict acts) context rn ov st = Inr (st\<lparr>config := c\<rparr>) \<and>
                get_nested_value c p = VList (cur @ as_list e))) \<and>
         (get_nested_value (config st) p \<noteq> VNone \<and>
          (\<forall>cur. get_nested_value (config st) p \<noteq> VList cur) \<longrightarrow>
            apply_actions L (VDict acts) context rn ov st
              = Inr (st\<lparr>log := log st @ [WarnAppendNotList (VStr p)]\<rparr>))"
proof -
  have eq: "apply_actions L (VDict acts) context rn ov st = append_step (VStr p, e) st"
    using assms(2-) by (rule apply_actions_only_append)
  show ?thesis
    unfolding eq append_step_cases[OF assms(1)]
    by (auto simp: get_set_walk split: val.splits)
qed

theorem append_action_witness:
  "apply_actions test_lib
     (VDict [(VStr ''append'', VDict [(VStr ''tags'', VStr ''rare'')])]) []
     (VStr ''r'') [] \<lparr>config = VDict [], counters = Map.empty, log = []\<rparr>
   = Inr \<lparr>config = VDict [(VStr ''tags'', VList [VStr ''rare''])],
          counters = Map.empty, log = []\<rparr> \<and>
   apply_actions test_lib
     (VDict [(VStr ''append'',
        VDict [(VStr ''tags'', VList [VStr ''epic'', VStr ''new''])])]) []
     (VStr ''r'') []
     \<lparr>config = VDict [(VStr ''tags'', VList [VStr ''rare''])],
      counters = Map.empty, log = []\<rparr>
   = Inr \<lparr>config = VDict [(VStr ''tags'', VList [VStr ''rare'', VStr ''epic'', VStr ''new''])],
          counters = Map.empty, log = []\<rparr> \<and>
   apply_actions test_lib
     (VDict [(VStr ''append'', VDict [(VStr ''tags'', VStr ''rare'')])]) []
     (VStr ''r'') []
     \<lparr>config = VDict [(VStr ''tags'', VInt 3)], counters = Map.empty, log = []\<rparr>
   = Inr \<lparr>config = VDict [(VStr ''tags'', VInt 3)], counters = Map.empty,
          log = [WarnAppendNotList (VStr ''tags'')]\<rparr>"
  using append_action[of "\<lparr>config = VDict [], counters = Map.empty, log = []\<rparr>" "[]"
          "[(VStr ''append'', VDict [(VStr ''tags'', VStr ''rare'')])]"
          "VDict [(VStr ''tags'', VStr ''rare'')]" test_lib "[]" "''tags''" "VStr ''rare''"
          "VStr ''r''" "[]"]
        append_action[of "\<lparr>config = VDict [(VStr ''tags'', VList [VStr ''rare''])],
                           counters = Map.empty, log = []\<rparr>"
          "[(VStr ''tags'', VList [VStr ''rare''])]"
          "[(VStr ''append'', VDict [(VStr ''tags'', VList [VStr ''epic'', VStr ''new''])])]"
          "VDict [(VStr ''tags'', VList [VStr ''epic'', VStr ''new''])]" test_lib "[]"
          "''tags''" "VList [VStr ''epic'', VStr ''new'']" "VStr ''r''" "[]"]
        append_action[of "\<lparr>config = VDict [(VStr ''tags'', VInt 3)],
                           counters = Map.empty, log = []\<rparr>"
          "[(VStr ''tags'', VInt 3)]"
          "[(VStr ''append'', VDict [(VStr ''tags'', VStr ''rare'')])]"
          "VDict [(VStr ''tags'', VStr ''rare'')]" test_lib "[]" "''tags''" "VStr ''rare''"
          "VStr ''r''" "[]"]
  by (simp add: action_defs append_step_def)

section \<open>Action applicator: the order of the actions\<close>

lemma delete_phase_absent:
  "\<not> dict_has acts ''delete'' \<Longrightarrow> delete_phase L acts c st = Inr st"
  by (simp add: delete_phase_def)

lemma items_phase_absent:
  "\<not> dict_has acts kind \<Longrightarrow> items_phase L acts c kind body st = Inr st"
  by (simp add: items_phase_def)

lemma spec_run_kind_simps:
  "spec_run_kind L acts c rn ov ''delete'' st = delete_phase L acts c st"
  "spec_run_kind L acts c rn ov ''rename'' st = items_phase L acts c ''rename'' rename_step st"
  "spec_run_kind L acts c rn ov ''set'' st = items_phase L acts c ''set'' (set_step L c) st"
  "spec_run_kind L acts c rn ov ''append'' st = items_phase L acts c ''append'' append_step st"
  "spec_run_kind L acts c rn ov ''prepend'' st
     = items_phase L acts c ''prepend'' prepend_step st"
  "spec_run_kind L acts c rn ov ''sequence'' st
     = items_phase L acts c ''sequence'' (sequence_step L ov rn) st"
  by (simp_all add: spec_run_kind_def delete_phase_absent items_phase_absent)

lemma apply_actions_refines:
  "apply_actions L (VDict acts) c rn ov st = spec_apply_actions L acts c rn ov st"
  by (simp add: apply_actions_def spec_apply_actions_def spec_action_order_def
        spec_run_kind_simps then_err_def split: sum.splits)

lemma process_rule_skip:
  assumes "map_of r (VStr ''actions'') = Some (VDict ra)"
    and "py_truthy (dict_get ra ''skip'' (VBool False))"
    and "py_truthy (dict_get r ''depends_on'' VNone) \<longrightarrow>
           (\<exists>b. missing_deps (dict_get r ''depends_on'' VNone) (snd acc) = Inr b)"
  shows "process_rule L fc ov (VDict r) acc = Inr acc"
  using assms
  by (auto simp add: process_rule_def Let_def then_err_def dict_get_def)

text \<open>
  C3. \<open>apply_actions\<close> on an action block is the specification's procedure: when
  \<^verbatim>\<open>skip\<close> is true nothing is done, otherwise the kinds delete, rename, set, append,
  prepend, sequence are run in this order, each only when the block has it. In the
  driver a rule whose actions say \<^verbatim>\<open>skip: true\<close> (and whose dependency test does not
  raise) leaves the state as it is, and the rules after it are processed from that
  state.
\<close>

theorem apply_actions_fixed_order:
  "apply_actions L (VDict acts) c rn ov st = spec_apply_actions L acts c rn ov st \<and>
   (py_truthy (dict_get acts ''skip'' (VBool False)) \<longrightarrow>
      apply_actions L (VDict acts) c rn ov st = Inr st) \<and>
   (map_of r (VStr ''actions'') = Some (VDict acts) \<and>
    py_truthy (dict_get acts ''skip'' (VBool False)) \<and>
    (py_truthy (dict_get r ''depends_on'' VNone) \<longrightarrow>
       (\<exists>b. missing_deps (dict_get r ''depends_on'' VNone) (snd acc) = Inr b)) \<longrightarrow>
      fold_err (process_rule L c ov) (VDict r # rules) acc
        = fold_err (process_rule L c ov) rules acc)"
proof (intro conjI impI)
  show "apply_actions L (VDict acts) c rn ov st = spec_apply_actions L acts c rn ov st"
    by (rule apply_actions_refines)
next
  assume "py_truthy (dict_get acts ''skip'' (VBool False))"
  then show "apply_actions L (VDict acts) c rn ov st = Inr st"
    by (simp add: apply_actions_def)
next
  assume h: "map_of r (VStr ''actions'') = Some (VDict acts) \<and>
    py_truthy (dict_get acts ''skip'' (VBool False)) \<and>
    (py_truthy (dict_get r ''depends_on'' VNone) \<longrightarrow>
       (\<exists>b. missing_deps (dict_get r ''depends_on'' VNone) (snd acc) = Inr b))"
  then have "process_rule L c ov (VDict r) acc = Inr acc"
    using process_rule_skip[of r acts acc L c ov] by blast
  then show "fold_err (process_rule L c ov) (VDict r # rules) acc
        = fold_err (process_rule L c ov) rules acc"
    by simp
qed

theorem apply_actions_fixed_order_witness:
  "apply_actions test_lib
     (VDict [(VStr ''set'', VDict [(VStr ''a'', VInt 1)]),
             (VStr ''delete'', VList [VStr ''a''])]) [] (VStr ''r'') []
     \<lparr>config = VDict [(VStr ''a'', VInt 0), (VStr ''b'', VInt 2)],
      counters = Map.empty, log = []\<rparr>
   = Inr \<lparr>config = VDict [(VStr ''b'', VInt 2), (VStr ''a'', VInt 1)],
          counters = Map.empty, log = []\<rparr> \<and>
   apply_actions test_lib
     (VDict [(VStr ''skip'', VBool True), (VStr ''set'', VDict [(VStr ''a'', VInt 9)])])
     [] (VStr ''r'') []
     \<lparr>config = VDict [(VStr ''a'', VInt 0)], counters = Map.empty, log = []\<rparr>
   = Inr \<lparr>config = VDict [(VStr ''a'', VInt 0)], counters = Map.empty, log = []\<rparr> \<and>
   fold_err (process_rule test_lib [] [])
     [VDict [(VStr ''actions'',
        VDict [(VStr ''skip'', VBool True), (VStr ''set'', VDict [(VStr ''a'', VInt 9)])])],
      VDict [(VStr ''actions'', VDict [(VStr ''set'', VDict [(VStr ''b'', VInt 1)])])]]
     (\<lparr>config = VDict [(VStr ''a'', VInt 0)], counters = Map.empty, log = []\<rparr>, [])
   = Inr (\<lparr>config = VDict [(VStr ''a'', VInt 0), (VStr ''b'', VInt 1)],
           counters = Map.empty, log = []\<rparr>, [])"
  using apply_actions_fixed_order[of test_lib
          "[(VStr ''skip'', VBool True), (VStr ''set'', VDict [(VStr ''a'', VInt 9)])]"
          "[]" "VStr ''r''" "[]"
          "\<lparr>config = VDict [(VStr ''a'', VInt 0)], counters = Map.empty, log = []\<rparr>"
          "[(VStr ''actions'',
             VDict [(VStr ''skip'', VBool True), (VStr ''set'', VDict [(VStr ''a'', VInt 9)])])]"
          "(\<lparr>config = VDict [(VStr ''a'', VInt 0)], counters = Map.empty, log = []\<rparr>, [])"
          "[VDict [(VStr ''actions'', VDict [(VStr ''set'', VDict [(VStr ''b'', VInt 1)])])]]"]
  by (simp add: action_defs process_rule_def set_step_def set_final_def delete_step_def
        delete_nested_value_def)

section \<open>Sequence actions in a rule named like the default\<close>

lemma dict_get_delete_other:
  "k \<noteq> k' \<Longrightarrow> dict_get (AList.delete (VStr k') r) k dflt = dict_get r k dflt"
  by (simp add: dict_get_def delete_conv')

lemma dict_has_delete_other:
  "k \<noteq> k' \<Longrightarrow> dict_has (AList.delete (VStr k') r) k = dict_has r k"
  by (simp add: dict_has_def delete_conv')

lemma dict_get_delete_same: "dict_get (AList.delete (VStr k) r) k dflt = dict_get [] k dflt"
  by (simp add: dict_get_def delete_conv')

lemma sequence_step_unnamed:
  assumes "\<not> py_truthy (dict_get info ''id'' VNone)"
  shows "sequence_step L ov (VStr ''Unnamed Rule'') (path, VDict info) st
           = Inr (st\<lparr>log := log st @ [ErrSequenceUnnamed path, ErrSequenceUnnamedHint]\<rparr>)"
  using assms by (simp add: sequence_step_def sequence_counter_key_def)

lemma process_rule_shape:
  assumes "\<And>met st'. map_sum id fst (k1 met st') = map_sum id fst (k2 met st')"
  shows "map_sum id fst
           (then_err D (\<lambda>missing. if missing then Inr acc
              else (case A of
                      VDict ra \<Rightarrow>
                        if S ra then Inr acc
                        else then_err C (\<lambda>met. if fst met then then_err (AA met) (k1 met)
                                                else Inr (E met))
                    | _ \<Rightarrow> Inl AttributeError)))
       = map_sum id fst
           (then_err D (\<lambda>missing. if missing then Inr acc
              else (case A of
                      VDict ra \<Rightarrow>
                        if S ra then Inr acc
                        else then_err C (\<lambda>met. if fst met then then_err (AA met) (k2 met)
                                                else Inr (E met))
                    | _ \<Rightarrow> Inl AttributeError)))"
proof (cases D)
  case (Inl e)
  then show ?thesis by (simp add: then_err_def)
next
  case (Inr missing)
  show ?thesis
  proof (cases "missing \<or> (\<forall>ra. A \<noteq> VDict ra)")
    case True
    then show ?thesis using Inr by (cases A) (auto simp: then_err_def)
  next
    case False
    then obtain ra where A: "A = VDict ra" and m: "\<not> missing" by blast
    show ?thesis
    proof (cases C)
      case (Inl e)
      then show ?thesis using Inr A m by (simp add: then_err_def)
    next
      case Cr: (Inr met)
      show ?thesis
      proof (cases "AA met")
        case (Inl e)
        then show ?thesis using Inr A m Cr by (simp add: then_err_def)
      next
        case Ar: (Inr st')
        then show ?thesis using Inr A m Cr assms[of met st'] by (simp add: then_err_def)
      qed
    qed
  qed
qed

lemma process_rule_name_irrelevant:
  assumes "map_of r (VStr ''name'') = Some (VStr ''Unnamed Rule'')"
  shows "map_sum id fst (process_rule L c ov (VDict r) acc)
       = map_sum id fst (process_rule L c ov (VDict (AList.delete (VStr ''name'') r)) acc)"
proof -
  let ?r' = "AList.delete (VStr ''name'') r"
  have n: "dict_get r ''name'' (VStr ''Unnamed Rule'') = VStr ''Unnamed Rule''"
      "dict_get ?r' ''name'' (VStr ''Unnamed Rule'') = VStr ''Unnamed Rule''"
      "dict_get r ''name'' VNone = VStr ''Unnamed Rule''"
      "dict_get ?r' ''name'' VNone = VNone"
    using assms by (simp_all add: dict_get_def delete_conv')
  have o: "dict_get ?r' ''actions'' (VDict []) = dict_get r ''actions'' (VDict [])"
      "dict_get ?r' ''depends_on'' VNone = dict_get r ''depends_on'' VNone"
      "dict_get ?r' ''conditions'' VNone = dict_get r ''conditions'' VNone"
      "dict_has ?r' ''conditions'' = dict_has r ''conditions''"
    by (simp_all add: dict_get_delete_other dict_has_delete_other)
  show ?thesis
    unfolding process_rule_def Let_def n o val.case
    by (rule process_rule_shape) simp
qed

text \<open>
  C10. A nested rule that declares the name \<^verbatim>\<open>Unnamed Rule\<close> reaches the applicator
  under the rule name an unnamed rule gets by default. A sequence entry without a truthy
  id in such a rule is therefore refused as the one of an unnamed rule: the record and
  the counters stay as they are and the two error records are logged. The state of the
  conversion after the rule is the state after the same rule with its name removed.
\<close>

theorem unnamed_rule_literal_name:
  assumes "map_of r (VStr ''name'') = Some (VStr ''Unnamed Rule'')"
    and "\<not> py_truthy (dict_get info ''id'' VNone)"
  shows "sequence_step L ov (dict_get r ''name'' (VStr ''Unnamed Rule'')) (path, VDict info) st
           = Inr (st\<lparr>log := log st @ [ErrSequenceUnnamed path, ErrSequenceUnnamedHint]\<rparr>) \<and>
         sequence_step L ov (dict_get r ''name'' (VStr ''Unnamed Rule'')) (path, VDict info) st
           = sequence_step L ov
               (dict_get (AList.delete (VStr ''name'') r) ''name'' (VStr ''Unnamed Rule''))
               (path, VDict info) st \<and>
         map_sum id fst (process_rule L c ov (VDict r) acc)
           = map_sum id fst
               (process_rule L c ov (VDict (AList.delete (VStr ''name'') r)) acc)"
proof -
  have n: "dict_get r ''name'' (VStr ''Unnamed Rule'') = VStr ''Unnamed Rule''"
    "dict_get (AList.delete (VStr ''name'') r) ''name'' (VStr ''Unnamed Rule'')
       = VStr ''Unnamed Rule''"
    using assms(1) by (simp_all add: dict_get_def delete_conv')
  show ?thesis
    unfolding n
    using sequence_step_unnamed[OF assms(2)] process_rule_name_irrelevant[OF assms(1)]
    by simp
qed

theorem unnamed_rule_literal_name_witness:
  "process_rule test_lib [] []
     (VDict [(VStr ''name'', VStr ''Unnamed Rule''),
             (VStr ''actions'',
                VDict [(VStr ''sequence'',
                   VDict [(VStr ''cmd'', VDict [(VStr ''start'', VInt 1)])])])])
     (\<lparr>config = VDict [], counters = Map.empty, log = []\<rparr>, [])
   = Inr (\<lparr>config = VDict [], counters = Map.empty,
           log = [ErrSequenceUnnamed (VStr ''cmd''), ErrSequenceUnnamedHint]\<rparr>,
          [VStr ''Unnamed Rule'']) \<and>
   process_rule test_lib [] []
     (VDict [(VStr ''actions'',
                VDict [(VStr ''sequence'',
                   VDict [(VStr ''cmd'', VDict [(VStr ''start'', VInt 1)])])])])
     (\<lparr>config = VDict [], counters = Map.empty, log = []\<rparr>, [])
   = Inr (\<lparr>config = VDict [], counters = Map.empty,
           log = [ErrSequenceUnnamed (VStr ''cmd''), ErrSequenceUnnamedHint]\<rparr>, [])"
  using unnamed_rule_literal_name[of
          "[(VStr ''name'', VStr ''Unnamed Rule''),
            (VStr ''actions'',
               VDict [(VStr ''sequence'',
                  VDict [(VStr ''cmd'', VDict [(VStr ''start'', VInt 1)])])])]"
          "[(VStr ''start'', VInt 1)]" test_lib "[]" "VStr ''cmd''"
          "\<lparr>config = VDict [], counters = Map.empty, log = []\<rparr>" "[]"
          "(\<lparr>config = VDict [], counters = Map.empty, log = []\<rparr>, [])"]
  by (simp add: action_defs process_rule_def sequence_step_def sequence_counter_key_def)

section \<open>The driver without nested rules\<close>

lemma convert_no_rules: "convert_single_file L old_data (VList []) ov = Inr (VDict [], [])"
  by (simp add: convert_single_file_def then_err_def py_iter_def)

lemma matching_keys_strings:
  "list_all (\<lambda>k. case k of VStr s \<Rightarrow> True | _ \<Rightarrow> False) ks \<Longrightarrow>
   matching_keys (content_key_base t) ks = Inr (filter (selects t) ks)"
  by (induction ks) (auto simp: then_err_def selects_def split: val.splits)

lemma update_fresh: "k \<notin> fst ` set al \<Longrightarrow> AList.update k v al = al @ [(k, v)]"
  by (induction al) auto

lemma fold_update_distinct:
  "distinct (map fst items) \<Longrightarrow> fst ` set items \<inter> fst ` set g = {} \<Longrightarrow>
   fold (\<lambda>kv acc. AList.update (fst kv) (snd kv) acc) items g = g @ items"
proof (induction items arbitrary: g)
  case Nil then show ?case by simp
next
  case (Cons kv items)
  have "AList.update (fst kv) (snd kv) g = g @ [kv]"
    using Cons.prems(2) by (simp add: update_fresh)
  moreover have "fst ` set items \<inter> fst ` set (g @ [kv]) = {}"
    using Cons.prems by auto
  ultimately show ?case using Cons.IH[of "g @ [kv]"] Cons.prems(1) by simp
qed

lemma process_item_plain:
  assumes "map_of (new_data fs) key = Some (VDict g)"
  shows "process_item L ov ct (VList []) (VDict []) key item fs
     = Inr (fs\<lparr>new_data := AList.update key (VDict (AList.update (fst item) (snd item) g)) (new_data fs)\<rparr>)"
  using assms
  by (simp add: process_item_def process_dynamic_context_def py_items_def py_iter_def
        then_err_def store_item_def Let_def)

lemma fold_process_item_plain:
  assumes "map_of (new_data fs) key = Some (VDict g)"
  shows "fold_err (process_item L ov ct (VList []) (VDict []) key) items fs
     = Inr (fs\<lparr>new_data := AList.update key
              (VDict (fold (\<lambda>kv acc. AList.update (fst kv) (snd kv) acc) items g)) (new_data fs)\<rparr>)"
  using assms
proof (induction items arbitrary: fs g)
  case Nil
  then show ?case by (simp add: update_triv)
next
  case (Cons item items)
  let ?g = "AList.update (fst item) (snd item) g"
  let ?fs = "fs\<lparr>new_data := AList.update key (VDict ?g) (new_data fs)\<rparr>"
  have m: "map_of (new_data ?fs) key = Some (VDict ?g)" by (simp add: update_conv')
  show ?case
    using Cons.IH[OF m] by (simp add: process_item_plain[OF Cons.prems])
qed

lemma process_group_plain:
  assumes "map_of od key = Some (VDict items)" "distinct (map fst items)"
  shows "process_group L ov (VDict od) ct (VList []) (VDict []) key fs
     = Inr (fs\<lparr>new_data := AList.update key (VDict items) (new_data fs)\<rparr>)"
proof -
  let ?fs0 = "fs\<lparr>new_data := AList.update key (VDict []) (new_data fs)\<rparr>"
  have m: "map_of (new_data ?fs0) key = Some (VDict [])" by (simp add: update_conv')
  have f: "fold (\<lambda>kv acc. AList.update (fst kv) (snd kv) acc) items [] = items"
    using fold_update_distinct[OF assms(2), of "[]"] by simp
  show ?thesis
    using assms(1) fold_process_item_plain[OF m, of L ov ct items]
    by (cases "items = []") (simp_all add: process_group_def old_group_def then_err_def py_items_def f Let_def)
qed


lemma fold_process_group_plain:
  assumes "distinct (map fst sel)"
    and "fst ` set sel \<inter> fst ` set (new_data fs) = {}"
    and "\<forall>kg \<in> set sel. \<exists>items. map_of od (fst kg) = Some (snd kg) \<and>
           snd kg = VDict items \<and> distinct (map fst items)"
  shows "fold_err (process_group L ov (VDict od) ct (VList []) (VDict [])) (map fst sel) fs
     = Inr (fs\<lparr>new_data := new_data fs @ sel\<rparr>)"
  using assms
proof (induction sel arbitrary: fs)
  case Nil
  then show ?case by simp
next
  case (Cons kg sel)
  obtain items where g: "map_of od (fst kg) = Some (VDict items)" "snd kg = VDict items"
      "distinct (map fst items)"
    using Cons.prems(3) by auto
  let ?fs = "fs\<lparr>new_data := AList.update (fst kg) (VDict items) (new_data fs)\<rparr>"
  have step: "process_group L ov (VDict od) ct (VList []) (VDict []) (fst kg) fs = Inr ?fs"
    using process_group_plain[OF g(1) g(3)] by simp
  have nd: "new_data ?fs = new_data fs @ [kg]"
    using Cons.prems(2) g(2) by (cases kg) (simp add: update_fresh)
  have d: "distinct (map fst sel)" using Cons.prems(1) by simp
  have i: "fst ` set sel \<inter> fst ` set (new_data ?fs) = {}"
    using Cons.prems(1,2) unfolding nd by auto
  have a: "\<forall>kg \<in> set sel. \<exists>items. map_of od (fst kg) = Some (snd kg) \<and>
           snd kg = VDict items \<and> distinct (map fst items)"
    using Cons.prems(3) by simp
  show ?case
    using Cons.IH[OF d i a] step nd by simp
qed

lemma fold_err_total:
  "(\<forall>x \<in> set xs. \<forall>s. \<exists>s'. f x s = Inr s') \<Longrightarrow> \<exists>s'. fold_err f xs s = Inr s'"
proof (induction xs arbitrary: s)
  case Nil then show ?case by simp
next
  case (Cons x xs)
  from Cons.prems obtain s' where "f x s = Inr s'" by fastforce
  then show ?case using Cons by simp
qed

lemma input_tree_entry:
  assumes "input_tree od" "kg \<in> set od"
  shows "\<exists>s items. fst kg = VStr s \<and> map_of od (fst kg) = Some (snd kg) \<and>
           snd kg = VDict items \<and> distinct (map fst items)"
proof -
  have d: "distinct (map fst od)" using assms(1) by (simp add: input_tree_def)
  have "(case fst kg of VStr s \<Rightarrow> True | _ \<Rightarrow> False) \<and>
        (case snd kg of VDict items \<Rightarrow> distinct (map fst items) | _ \<Rightarrow> False)"
    using assms by (simp add: input_tree_def list_all_iff)
  moreover have "map_of od (fst kg) = Some (snd kg)"
    using d assms(2) by (cases kg) simp
  ultimately show ?thesis by (auto split: val.splits)
qed

lemma rule_keys_input_tree:
  assumes "input_tree od"
  shows "rule_keys (VDict od) (VStr t)
     = Inr (map fst (filter (\<lambda>kg. selects t (fst kg)) od))"
proof -
  have "list_all (\<lambda>k. case k of VStr s \<Rightarrow> True | _ \<Rightarrow> False) (map fst od)"
    using input_tree_entry[OF assms] by (fastforce simp: list_all_iff)
  then show ?thesis
    by (simp add: rule_keys_def py_iter_def then_err_def matching_keys_strings filter_map
          comp_def)
qed

lemma count_rule_total:
  assumes "input_tree od" "dict_get r ''content'' VNone = VStr t" "t \<noteq> []"
  shows "\<exists>n. count_rule (VDict od) (VDict r) 0 = Inr n"
proof -
  let ?keys = "map fst (filter (\<lambda>kg. selects t (fst kg)) od)"
  let ?f = "\<lambda>content_key n. then_err (old_group (VDict od) content_key)
               (\<lambda>g. then_err (py_len g) (\<lambda>l. Inr (n + l)))"
  have "\<forall>k \<in> set ?keys. \<forall>n. \<exists>m. ?f k n = Inr m"
  proof (intro ballI allI)
    fix k n assume "k \<in> set ?keys"
    then obtain kg where "kg \<in> set od" "k = fst kg" by auto
    then obtain items where "map_of od k = Some (VDict items)"
      using input_tree_entry[OF assms(1)] by metis
    then show "\<exists>m. ?f k n = Inr m"
      by (simp add: old_group_def then_err_def py_len_def)
  qed
  then have "\<exists>m. fold_err ?f ?keys 0 = Inr m" by (rule fold_err_total)
  then show ?thesis
    using assms(2,3) by (simp add: count_rule_def rule_keys_input_tree[OF assms(1)] then_err_def)
qed

lemma convert_plain_rule:
  assumes "input_tree od" "dict_get r ''content'' VNone = VStr t" "t \<noteq> []"
    and "dict_get r ''rules'' (VList []) = VList []"
    and "dict_get r ''context'' (VDict []) = VDict []"
  shows "convert_single_file L (VDict od) (VList [VDict r]) ov
     = Inr (VDict (filter (\<lambda>kg. selects t (fst kg)) od), [])"
proof -
  let ?sel = "filter (\<lambda>kg. selects t (fst kg)) od"
  let ?fs0 = "\<lparr>new_data = [], sequence_counters = Map.empty, file_log = []\<rparr>"
  obtain n where n: "count_rule (VDict od) (VDict r) 0 = Inr n"
    using count_rule_total[OF assms(1-3)] by blast
  have d: "distinct (map fst ?sel)"
    using assms(1) by (simp add: input_tree_def distinct_map_filter)
  have a: "\<forall>kg \<in> set ?sel. \<exists>items. map_of od (fst kg) = Some (snd kg) \<and>
           snd kg = VDict items \<and> distinct (map fst items)"
    using input_tree_entry[OF assms(1)] by fastforce
  have g: "fold_err (process_group L ov (VDict od) (VStr t) (VList []) (VDict []))
             (map fst ?sel) ?fs0 = Inr (?fs0\<lparr>new_data := new_data ?fs0 @ ?sel\<rparr>)"
    by (rule fold_process_group_plain[OF d _ a]) simp
  have top: "process_top_rule L ov (VDict od) (VDict r) ?fs0
        = Inr (?fs0\<lparr>new_data := ?sel\<rparr>)"
    using g assms(2-5)
    by (simp add: process_top_rule_def rule_keys_input_tree[OF assms(1)] then_err_def)
  show ?thesis
    using n top by (simp add: convert_single_file_def py_iter_def then_err_def)
qed

text \<open>
  C1, as the spec states it, fails: with an empty rule set no group is selected, and
  the output is the empty tree, not a copy of the input.
\<close>

theorem empty_rule_set_counterexample:
  "convert_single_file test_lib
     (VDict [(VStr ''items'', VDict [(VStr ''sword'', VDict [(VStr ''damage'', VInt 5)])])])
     (VList []) []
   = Inr (VDict [], []) \<and>
   VDict [] \<noteq>
     VDict [(VStr ''items'', VDict [(VStr ''sword'', VDict [(VStr ''damage'', VInt 5)])])]"
  by (simp add: convert_single_file_def then_err_def py_iter_def)

text \<open>
  C1, amended. For every input and an empty rule set the output is the empty tree and
  nothing is logged. A group reaches the output when a top-level rule selects it: for an
  input tree and a rule set of one top-level rule that has a content type and neither
  nested rules nor context definitions, the output is the input restricted to the groups
  the rule selects, in their order, every selected group with its records as they were;
  no group, record or field of a selected group is added, removed or changed.
\<close>

theorem convert_without_nested_rules:
  "convert_single_file L old_data (VList []) ov = Inr (VDict [], []) \<and>
   (input_tree od \<and> dict_get r ''content'' VNone = VStr t \<and> t \<noteq> [] \<and>
    dict_get r ''rules'' (VList []) = VList [] \<and>
    dict_get r ''context'' (VDict []) = VDict [] \<longrightarrow>
      convert_single_file L (VDict od) (VList [VDict r]) ov
        = Inr (VDict (filter (\<lambda>kg. selects t (fst kg)) od), []))"
  using convert_no_rules[of L old_data ov] convert_plain_rule[of od r t L ov] by blast

theorem convert_without_nested_rules_witness:
  "input_tree
     [(VStr ''items'', VDict [(VStr ''sword'', VDict [(VStr ''damage'', VInt 5)])]),
      (VStr ''blocks'', VDict [(VStr ''stone'', VDict [])])] \<and>
   convert_single_file test_lib
     (VDict [(VStr ''items'', VDict [(VStr ''sword'', VDict [(VStr ''damage'', VInt 5)])]),
             (VStr ''blocks'', VDict [(VStr ''stone'', VDict [])])])
     (VList [VDict [(VStr ''content'', VStr ''item'')]]) []
   = Inr (VDict [(VStr ''items'',
                  VDict [(VStr ''sword'', VDict [(VStr ''damage'', VInt 5)])])], [])"
  using convert_without_nested_rules[of test_lib VNone "[]"
          "[(VStr ''items'', VDict [(VStr ''sword'', VDict [(VStr ''damage'', VInt 5)])]),
            (VStr ''blocks'', VDict [(VStr ''stone'', VDict [])])]"
          "[(VStr ''content'', VStr ''item'')]" "''item''"]
  by (simp add: input_tree_def selects_def key_matches_def content_key_base_def is_digit_def
        dict_get_def)

section \<open>The sequence events of a conversion are chained\<close>

text \<open>
  The counters an event of \<open>file_trace\<close> finds are the counters the event before it
  left, across the entries of a block, the rules of a record, the records of a group,
  the groups and the top-level rules; the first event finds the empty counters. Each
  lemma ties the events of one function of the driver to the counters that function
  returns.
\<close>

lemma chained_append:
  "chained L ov cs (es @ fs) = (chained L ov cs es \<and> chained L ov (chain_end cs es) fs)"
  by (induction es arbitrary: cs) auto

lemma chain_end_append: "chain_end cs (es @ fs) = chain_end (chain_end cs es) fs"
  by (induction es arbitrary: cs) auto

lemma fold_trace_chained:
  assumes "\<And>x s. chained L ov (cnt s) (g x s) \<and>
              (\<forall>s'. f x s = Inr s' \<longrightarrow> cnt s' = chain_end (cnt s) (g x s))"
  shows "chained L ov (cnt s) (fold_trace g f xs s) \<and>
         (\<forall>s'. fold_err f xs s = Inr s' \<longrightarrow> cnt s' = chain_end (cnt s) (fold_trace g f xs s))"
proof (induction xs arbitrary: s)
  case Nil
  then show ?case by simp
next
  case (Cons x xs)
  show ?case
  proof (cases "f x s")
    case (Inl e)
    then show ?thesis using assms[of s x] by simp
  next
    case (Inr s1)
    then have c: "cnt s1 = chain_end (cnt s) (g x s)" using assms[of s x] by simp
    show ?thesis
      using Inr assms[of s x] Cons.IH[of s1] c
      by (simp add: chained_append chain_end_append)
  qed
qed

lemma sequence_event_chained:
  "chained L ov (counters st) (sequence_event L ov rn item st) \<and>
   (\<forall>st'. sequence_step L ov rn item st = Inr st' \<longrightarrow>
      counters st' = chain_end (counters st) (sequence_event L ov rn item st))"
proof (cases "\<exists>info. snd item = VDict info")
  case True
  then obtain info where i: "snd item = VDict info" by blast
  then have it: "item = (fst item, VDict info)" by (cases item) simp
  show ?thesis
    using i it by (cases "sequence_step L ov rn item st") (simp_all add: sequence_event_def)
next
  case False
  then have "sequence_step L ov rn item st = Inl AttributeError"
    by (cases "snd item") (simp_all add: sequence_step_def Let_def)
  moreover have "sequence_event L ov rn item st = []"
    using False by (cases "snd item") (simp_all add: sequence_event_def)
  ultimately show ?thesis by simp
qed

lemma sequence_phase_chained:
  "chained L ov (counters st) (sequence_phase_trace L acts c rn ov st) \<and>
   (\<forall>st'. items_phase L acts c ''sequence'' (sequence_step L ov rn) st = Inr st' \<longrightarrow>
      counters st' = chain_end (counters st) (sequence_phase_trace L acts c rn ov st))"
proof -
  have f: "\<And>items s. chained L ov (counters s)
              (fold_trace (sequence_event L ov rn) (sequence_step L ov rn) items s) \<and>
         (\<forall>s'. fold_err (sequence_step L ov rn) items s = Inr s' \<longrightarrow>
            counters s' = chain_end (counters s)
              (fold_trace (sequence_event L ov rn) (sequence_step L ov rn) items s))"
    by (rule fold_trace_chained) (rule sequence_event_chained)
  show ?thesis
    using f
    by (auto simp: sequence_phase_trace_def items_phase_def then_err_def
          split: sum.splits)
qed


lemma fold_err_preserves:
  assumes "\<And>x s s'. f x s = Inr s' \<Longrightarrow> P s' = P s"
  shows "fold_err f xs s = Inr s' \<Longrightarrow> P s' = P s"
proof (induction xs arbitrary: s)
  case Nil
  then show ?case by simp
next
  case (Cons x xs)
  then obtain s1 where 1: "f x s = Inr s1" and 2: "fold_err f xs s1 = Inr s'"
    by (auto split: sum.splits)
  show ?case using Cons.IH[OF 2] assms[OF 1] by simp
qed

lemma set_final_counters: "set_final path v st = Inr st' \<Longrightarrow> counters st' = counters st"
  by (auto simp: set_final_def split: sum.splits)

lemma delete_step_counters: "delete_step x st = Inr st' \<Longrightarrow> counters st' = counters st"
  by (auto simp: delete_step_def split: sum.splits)

lemma rename_step_counters: "rename_step x st = Inr st' \<Longrightarrow> counters st' = counters st"
  by (auto simp: rename_step_def Let_def split: sum.splits if_splits)

lemma set_step_counters: "set_step L c x st = Inr st' \<Longrightarrow> counters st' = counters st"
  by (auto simp: set_step_def Let_def dest!: set_final_counters
        split: val.splits option.splits if_splits)

lemma append_step_counters: "append_step x st = Inr st' \<Longrightarrow> counters st' = counters st"
  by (auto simp: append_step_def Let_def split: sum.splits val.splits)

lemma prepend_step_counters: "prepend_step x st = Inr st' \<Longrightarrow> counters st' = counters st"
  by (auto simp: prepend_step_def Let_def split: sum.splits val.splits)

lemma items_phase_counters:
  assumes "\<And>x s s'. body x s = Inr s' \<Longrightarrow> counters s' = counters s"
  shows "items_phase L acts c kind body st = Inr st' \<Longrightarrow> counters st' = counters st"
  using fold_err_preserves[of body counters, OF assms]
  by (auto simp: items_phase_def then_err_def split: if_splits sum.splits)

lemma delete_phase_counters:
  "delete_phase L acts c st = Inr st' \<Longrightarrow> counters st' = counters st"
  using fold_err_preserves[of delete_step counters, OF delete_step_counters]
  by (auto simp: delete_phase_def then_err_def split: if_splits sum.splits)

lemma then_err_Inr: "then_err m f = Inr y \<Longrightarrow> \<exists>x. m = Inr x \<and> f x = Inr y"
  by (cases m) (simp_all add: then_err_def)

lemma pre_sequence_counters:
  assumes "pre_sequence L acts c st = Inr s5"
  shows "counters s5 = counters st"
proof -
  from assms obtain s1 s2 s3 s4 where
    "delete_phase L acts c st = Inr s1"
    "items_phase L acts c ''rename'' rename_step s1 = Inr s2"
    "items_phase L acts c ''set'' (set_step L c) s2 = Inr s3"
    "items_phase L acts c ''append'' append_step s3 = Inr s4"
    "items_phase L acts c ''prepend'' prepend_step s4 = Inr s5"
    unfolding pre_sequence_def by (blast dest: then_err_Inr)
  then show ?thesis
    using delete_phase_counters[of L acts c st s1]
      items_phase_counters[of rename_step L acts c "''rename''" s1 s2, OF rename_step_counters]
      items_phase_counters[of "set_step L c" L acts c "''set''" s2 s3, OF set_step_counters]
      items_phase_counters[of append_step L acts c "''append''" s3 s4, OF append_step_counters]
      items_phase_counters[of prepend_step L acts c "''prepend''" s4 s5,
        OF prepend_step_counters]
    by simp
qed

lemma apply_actions_pre_sequence:
  "apply_actions L (VDict acts) c rn ov st =
     (if py_truthy (dict_get acts ''skip'' (VBool False)) then Inr st
      else then_err (pre_sequence L acts c st)
             (items_phase L acts c ''sequence'' (sequence_step L ov rn)))"
  by (simp add: apply_actions_def pre_sequence_def then_err_def split: sum.splits)

lemma actions_chained:
  "chained L ov (counters st) (actions_trace L actions c rn ov st) \<and>
   (\<forall>st'. apply_actions L actions c rn ov st = Inr st' \<longrightarrow>
      counters st' = chain_end (counters st) (actions_trace L actions c rn ov st))"
proof (cases "\<exists>acts. actions = VDict acts")
  case False
  then have "actions_trace L actions c rn ov st = []"
      "apply_actions L actions c rn ov st = Inl AttributeError"
    by (cases actions; simp add: actions_trace_def apply_actions_def)+
  then show ?thesis by simp
next
  case True
  then obtain acts where a: "actions = VDict acts" by blast
  show ?thesis
  proof (cases "py_truthy (dict_get acts ''skip'' (VBool False))")
    case True
    then show ?thesis using a by (simp add: actions_trace_def apply_actions_def)
  next
    case ns: False
    show ?thesis
    proof (cases "pre_sequence L acts c st")
      case (Inl e)
      then show ?thesis
        using a ns by (simp add: actions_trace_def apply_actions_pre_sequence then_err_def)
    next
      case (Inr s5)
      have c5: "counters s5 = counters st" using pre_sequence_counters[OF Inr] .
      show ?thesis
        using a ns Inr c5 sequence_phase_chained[of L ov s5 acts c rn]
        by (simp add: actions_trace_def apply_actions_pre_sequence then_err_def)
    qed
  qed
qed


lemma process_rule_entry:
  "process_rule L fc ov (VDict r) acc =
     then_err (rule_entry L fc r acc)
       (\<lambda>entry.
          if fst entry then
            then_err
              (apply_actions L (dict_get r ''actions'' (VDict [])) fc
                 (dict_get r ''name'' (VStr ''Unnamed Rule'')) ov (snd entry))
              (\<lambda>st'. if py_truthy (dict_get r ''name'' VNone) then
                        (if is_hashable (dict_get r ''name'' VNone)
                         then Inr (st', snd acc @ [dict_get r ''name'' VNone])
                         else Inl TypeError)
                      else Inr (st', snd acc))
          else Inr (snd entry, snd acc))"
proof -
  let ?D = "if py_truthy (dict_get r ''depends_on'' VNone)
            then missing_deps (dict_get r ''depends_on'' VNone) (snd acc) else Inr False"
  let ?C = "\<lambda>st. if dict_has r ''conditions'' then
                 then_err (py_iter (dict_get r ''conditions'' VNone))
                   (\<lambda>cs. conditions_met L (config st) fc cs (log st))
               else Inr (True, log st)"
  show ?thesis
  proof (cases ?D)
    case (Inl e)
    then show ?thesis by (simp add: process_rule_def rule_entry_def Let_def then_err_def)
  next
    case (Inr missing)
    show ?thesis
    proof (cases "missing \<or> (\<forall>ra. dict_get r ''actions'' (VDict []) \<noteq> VDict ra)")
      case True
      then show ?thesis
        using Inr
        by (cases "dict_get r ''actions'' (VDict [])")
           (auto simp add: process_rule_def rule_entry_def Let_def then_err_def)
    next
      case False
      then obtain ra where ra: "dict_get r ''actions'' (VDict []) = VDict ra"
        and m: "\<not> missing" by blast
      show ?thesis
      proof (cases "py_truthy (dict_get ra ''skip'' (VBool False))")
        case True
        then show ?thesis
          using Inr ra m by (simp add: process_rule_def rule_entry_def Let_def then_err_def)
      next
        case ns: False
        show ?thesis
        proof (cases "?C (fst acc)")
          case (Inl e)
          then show ?thesis
            using Inr ra m ns
            by (simp add: process_rule_def rule_entry_def Let_def then_err_def)
        next
          case Cr: (Inr met)
          then show ?thesis
            using Inr ra m ns
            by (simp add: process_rule_def rule_entry_def Let_def then_err_def)
        qed
      qed
    qed
  qed
qed

lemma rule_entry_counters:
  "rule_entry L fc r acc = Inr entry \<Longrightarrow> counters (snd entry) = counters (fst acc)"
  unfolding rule_entry_def Let_def
  by (auto dest!: then_err_Inr split: if_splits val.splits)

lemma rule_chained:
  "chained L ov (counters (fst acc)) (rule_trace L fc ov rule acc) \<and>
   (\<forall>acc'. process_rule L fc ov rule acc = Inr acc' \<longrightarrow>
      counters (fst acc') = chain_end (counters (fst acc)) (rule_trace L fc ov rule acc))"
proof (cases "\<exists>r. rule = VDict r")
  case False
  then have "rule_trace L fc ov rule acc = []"
      "process_rule L fc ov rule acc = Inl AttributeError"
    by (cases rule; simp add: rule_trace_def process_rule_def Let_def)+
  then show ?thesis by simp
next
  case True
  then obtain r where r: "rule = VDict r" by blast
  show ?thesis
  proof (cases "rule_entry L fc r acc")
    case (Inl e)
    then show ?thesis using r by (simp add: rule_trace_def process_rule_entry then_err_def)
  next
    case (Inr entry)
    have c: "counters (snd entry) = counters (fst acc)" using rule_entry_counters[OF Inr] .
    show ?thesis
    proof (cases "fst entry")
      case False
      then show ?thesis
        using r Inr c by (simp add: rule_trace_def process_rule_entry then_err_def)
    next
      case True
      let ?A = "apply_actions L (dict_get r ''actions'' (VDict [])) fc
                 (dict_get r ''name'' (VStr ''Unnamed Rule'')) ov (snd entry)"
      let ?T = "actions_trace L (dict_get r ''actions'' (VDict [])) fc
                 (dict_get r ''name'' (VStr ''Unnamed Rule'')) ov (snd entry)"
      have t: "rule_trace L fc ov rule acc = ?T"
        using r Inr True by (simp add: rule_trace_def)
      have ch: "chained L ov (counters (snd entry)) ?T \<and>
                (\<forall>st'. ?A = Inr st' \<longrightarrow> counters st' = chain_end (counters (snd entry)) ?T)"
        by (rule actions_chained)
      show ?thesis
      proof (cases ?A)
        case (Inl e)
        then show ?thesis
          using r Inr True ch c t by (simp add: process_rule_entry then_err_def)
      next
        case Ar: (Inr st')
        then have "counters st' = chain_end (counters (fst acc)) ?T" using ch c by simp
        then show ?thesis
          using r Inr True ch c t Ar
          by (auto simp add: process_rule_entry then_err_def split: if_splits)
      qed
    qed
  qed
qed


lemma rules_chained:
  "chained L ov (counters (fst acc))
     (fold_trace (rule_trace L fc ov) (process_rule L fc ov) rules acc) \<and>
   (\<forall>acc'. fold_err (process_rule L fc ov) rules acc = Inr acc' \<longrightarrow>
      counters (fst acc') = chain_end (counters (fst acc))
        (fold_trace (rule_trace L fc ov) (process_rule L fc ov) rules acc))"
  by (rule fold_trace_chained[where cnt = "\<lambda>acc. counters (fst acc)"]) (rule rule_chained)

lemma item_chained:
  "chained L ov (sequence_counters fs) (item_trace L ov ct nr cd key item fs) \<and>
   (\<forall>fs'. process_item L ov ct nr cd key item fs = Inr fs' \<longrightarrow>
      sequence_counters fs' = chain_end (sequence_counters fs)
        (item_trace L ov ct nr cd key item fs))"
proof -
  let ?P = "process_dynamic_context L cd (snd item)
             [(VStr ''content_id'', fst item), (VStr ''content_type'', ct)] (file_log fs)"
  show ?thesis
  proof (cases ?P)
    case (Inl e)
    then show ?thesis by (simp add: item_trace_def process_item_def Let_def then_err_def)
  next
    case (Inr ctx)
    show ?thesis
    proof (cases "py_iter nr")
      case (Inl e)
      then show ?thesis
        using Inr by (simp add: item_trace_def process_item_def Let_def then_err_def)
    next
      case Rr: (Inr rules)
      let ?st0 = "(\<lparr>config = snd item, counters = sequence_counters fs, log = snd ctx\<rparr>,
                   [] :: val list)"
      let ?T = "fold_trace (rule_trace L (fst ctx) ov) (process_rule L (fst ctx) ov) rules ?st0"
      have t: "item_trace L ov ct nr cd key item fs = ?T"
        using Inr Rr by (simp add: item_trace_def)
      have ch: "chained L ov (sequence_counters fs) ?T \<and>
         (\<forall>acc'. fold_err (process_rule L (fst ctx) ov) rules ?st0 = Inr acc' \<longrightarrow>
            counters (fst acc') = chain_end (sequence_counters fs) ?T)"
        using rules_chained[of L ov ?st0 "fst ctx" rules] by simp
      show ?thesis
        unfolding t
        using Inr Rr ch
        by (auto simp add: process_item_def Let_def then_err_def split: sum.splits)
    qed
  qed
qed

lemma group_chained:
  "chained L ov (sequence_counters fs) (group_trace L ov od ct nr cd key fs) \<and>
   (\<forall>fs'. process_group L ov od ct nr cd key fs = Inr fs' \<longrightarrow>
      sequence_counters fs' = chain_end (sequence_counters fs)
        (group_trace L ov od ct nr cd key fs))"
proof -
  let ?fs0 = "fs\<lparr>new_data := AList.update key (VDict []) (new_data fs)\<rparr>"
  have f: "\<And>items. chained L ov (sequence_counters ?fs0)
       (fold_trace (item_trace L ov ct nr cd key) (process_item L ov ct nr cd key) items ?fs0) \<and>
     (\<forall>fs'. fold_err (process_item L ov ct nr cd key) items ?fs0 = Inr fs' \<longrightarrow>
        sequence_counters fs' = chain_end (sequence_counters ?fs0)
          (fold_trace (item_trace L ov ct nr cd key) (process_item L ov ct nr cd key)
             items ?fs0))"
    by (rule fold_trace_chained[where cnt = sequence_counters]) (rule item_chained)
  show ?thesis
    using f
    by (auto simp add: group_trace_def process_group_def Let_def then_err_def
          split: sum.splits)
qed

lemma top_rule_chained:
  "chained L ov (sequence_counters fs) (top_rule_trace L ov od rule fs) \<and>
   (\<forall>fs'. process_top_rule L ov od rule fs = Inr fs' \<longrightarrow>
      sequence_counters fs' = chain_end (sequence_counters fs)
        (top_rule_trace L ov od rule fs))"
proof (cases "\<exists>r. rule = VDict r")
  case False
  then have "top_rule_trace L ov od rule fs = []"
      "process_top_rule L ov od rule fs = Inl AttributeError"
    by (cases rule; simp add: top_rule_trace_def process_top_rule_def)+
  then show ?thesis by simp
next
  case True
  then obtain r where r: "rule = VDict r" by blast
  let ?ct = "dict_get r ''content'' VNone"
  let ?nr = "dict_get r ''rules'' (VList [])"
  let ?cd = "dict_get r ''context'' (VDict [])"
  have f: "\<And>keys. chained L ov (sequence_counters fs)
       (fold_trace (group_trace L ov od ?ct ?nr ?cd) (process_group L ov od ?ct ?nr ?cd)
          keys fs) \<and>
     (\<forall>fs'. fold_err (process_group L ov od ?ct ?nr ?cd) keys fs = Inr fs' \<longrightarrow>
        sequence_counters fs' = chain_end (sequence_counters fs)
          (fold_trace (group_trace L ov od ?ct ?nr ?cd) (process_group L ov od ?ct ?nr ?cd)
             keys fs))"
    by (rule fold_trace_chained[where cnt = sequence_counters]) (rule group_chained)
  show ?thesis
    using r f
    by (auto simp add: top_rule_trace_def process_top_rule_def Let_def then_err_def
          split: sum.splits)
qed

lemma file_chained: "chained L ov Map.empty (file_trace L old_data rules_list ov)"
proof -
  let ?fs0 = "\<lparr>new_data = [], sequence_counters = Map.empty, file_log = []\<rparr>"
  have "\<And>rules. chained L ov (sequence_counters ?fs0)
       (fold_trace (top_rule_trace L ov old_data) (process_top_rule L ov old_data) rules ?fs0)"
    using fold_trace_chained[where cnt = sequence_counters and L = L and ov = ov
        and g = "top_rule_trace L ov old_data" and f = "process_top_rule L ov old_data",
        OF top_rule_chained]
    by blast
  then show ?thesis
    by (simp add: file_trace_def split: sum.splits)
qed

section \<open>Sequence counters\<close>

lemma set_final_Inr:
  assumes "set_final path v st = Inr st'"
  shows "\<exists>p d. path = VStr p \<and> config st = VDict d \<and>
           st' = st\<lparr>config := VDict (set_walk d (split_dot p) v)\<rparr>"
  using assms
  by (auto simp: set_final_def as_path_def set_nested_value_def split: val.splits sum.splits)

lemma sequence_step_ev:
  assumes "ev_key L e = Some K"
  shows "sequence_step L ov (ev_rule e) (ev_path e, VDict (ev_info e)) st =
     (if \<not> key_hashable K then Inl TypeError
      else
        (case (case counters st K of
                 Some x \<Rightarrow> Inr x
               | None \<Rightarrow> sequence_initial ov (ev_start e) (ev_override_key e)) of
           Inl err \<Rightarrow> Inl err
         | Inr cur \<Rightarrow>
             (case set_final (ev_path e) (sequence_render L (ev_format e) cur) st of
                Inl err \<Rightarrow> Inl err
              | Inr st1 \<Rightarrow>
                  (case py_add cur (ev_step e) of
                     Inl err \<Rightarrow> Inl err
                   | Inr nxt \<Rightarrow> Inr (st1\<lparr>counters := (counters st)(K \<mapsto> nxt)\<rparr>)))))"
  using assms
  unfolding sequence_step_def Let_def ev_key_def ev_start_def ev_override_key_def
    ev_format_def ev_step_def fst_conv snd_conv
  by (simp cong: sum.case_cong option.case_cong)

lemma sequence_step_Inr:
  assumes "sequence_step L ov (ev_rule e) (ev_path e, VDict (ev_info e)) st = Inr st'"
    and "ev_key L e = Some K"
  shows "\<exists>cur p d nxt.
           (case counters st K of
              Some x \<Rightarrow> Inr x
            | None \<Rightarrow> sequence_initial ov (ev_start e) (ev_override_key e)) = Inr cur \<and>
           ev_path e = VStr p \<and> config st = VDict d \<and>
           py_add cur (ev_step e) = Inr nxt \<and>
           st' = st\<lparr>config := VDict (set_walk d (split_dot p)
                                    (sequence_render L (ev_format e) cur)),
                    counters := (counters st)(K \<mapsto> nxt)\<rparr>"
proof -
  let ?init = "case counters st K of
              Some x \<Rightarrow> Inr x
            | None \<Rightarrow> sequence_initial ov (ev_start e) (ev_override_key e)"
  note eq = assms(1)[unfolded sequence_step_ev[OF assms(2)]]
  obtain cur where cur: "?init = Inr cur"
    using eq by (cases ?init) (simp_all split: if_splits)
  obtain st1 where st1: "set_final (ev_path e) (sequence_render L (ev_format e) cur) st
                          = Inr st1"
    using eq cur
    by (cases "set_final (ev_path e) (sequence_render L (ev_format e) cur) st")
       (simp_all split: if_splits)
  obtain nxt where nxt: "py_add cur (ev_step e) = Inr nxt"
    using eq cur st1 by (cases "py_add cur (ev_step e)") (simp_all split: if_splits)
  have st': "st' = st1\<lparr>counters := (counters st)(K \<mapsto> nxt)\<rparr>"
    using eq cur st1 nxt by (simp split: if_splits)
  from set_final_Inr[OF st1] obtain p d where
    "ev_path e = VStr p" "config st = VDict d"
    "st1 = st\<lparr>config := VDict (set_walk d (split_dot p)
                      (sequence_render L (ev_format e) cur))\<rparr>" by blast
  then show ?thesis using cur nxt st' by auto
qed

lemma sequence_step_other:
  assumes "sequence_step L ov (ev_rule e) (ev_path e, VDict (ev_info e)) st = Inr st'"
    and "ev_key L e \<noteq> Some K"
  shows "counters st' K = counters st K"
proof (cases "ev_key L e")
  case None
  then show ?thesis using assms(1)
    by (auto simp add: sequence_step_def ev_key_def)
next
  case (Some K')
  then have "K' \<noteq> K" using assms(2) by simp
  then show ?thesis using sequence_step_Inr[OF assms(1) Some] by auto
qed

lemma sequence_step_bound:
  assumes "sequence_step L ov (ev_rule e) (ev_path e, VDict (ev_info e)) (ev_before e)
             = Inr (ev_after e)"
    and "ev_key L e = Some K"
    and "(case counters (ev_before e) K of
            Some x \<Rightarrow> Inr x
          | None \<Rightarrow> sequence_initial ov (ev_start e) (ev_override_key e)) = Inr (VInt x)"
    and "ev_step e = VInt s"
  shows "counters (ev_after e) K = Some (VInt (x + s)) \<and>
         ev_written e = sequence_render L (ev_format e) (VInt x)"
  using sequence_step_Inr[OF assms(1,2)] assms(3,4)
  by (auto simp: ev_written_def get_set_walk py_add_def)

lemma sequence_initial_int:
  assumes "sequence_initial ov (VInt a) okey = Inr cur"
  shows "cur = VInt (case okey of
                       VStr k \<Rightarrow> (case map_of ov k of Some i \<Rightarrow> i | None \<Rightarrow> a)
                     | _ \<Rightarrow> a)"
  using assms
  by (cases "ov = []")
     (auto simp: sequence_initial_def split: if_splits val.splits option.splits)

lemma chained_progression_existing:
  assumes "chained L ov cs es"
    and "cs K = Some (VInt c)"
    and "\<forall>e \<in> set es. ev_key L e = Some K \<longrightarrow> (\<exists>s. ev_step e = VInt s)"
  shows "map ev_written (filter (\<lambda>e. ev_key L e = Some K) es)
         = map2 (\<lambda>e v. sequence_render L (ev_format e) (VInt v))
             (filter (\<lambda>e. ev_key L e = Some K) es)
             (partial_sums c (map ev_step_int (filter (\<lambda>e. ev_key L e = Some K) es)))"
  using assms
proof (induction es arbitrary: cs c)
  case Nil
  then show ?case by simp
next
  case (Cons e es)
  have step: "sequence_step L ov (ev_rule e) (ev_path e, VDict (ev_info e)) (ev_before e)
                = Inr (ev_after e)"
    and before: "counters (ev_before e) = cs"
    and rest: "chained L ov (counters (ev_after e)) es"
    using Cons.prems(1) by simp_all
  have steps: "\<forall>e \<in> set es. ev_key L e = Some K \<longrightarrow> (\<exists>s. ev_step e = VInt s)"
    using Cons.prems(3) by simp
  show ?case
  proof (cases "ev_key L e = Some K")
    case True
    then obtain s where s: "ev_step e = VInt s" using Cons.prems(3) by auto
    have b: "counters (ev_after e) K = Some (VInt (c + s)) \<and>
             ev_written e = sequence_render L (ev_format e) (VInt c)"
      using sequence_step_bound[OF step True _ s, of c] before Cons.prems(2) by simp
    have si: "ev_step_int e = s" using s by (simp add: ev_step_int_def)
    show ?thesis
      using Cons.IH[OF rest _ steps, of "c + s"] b True si by simp
  next
    case False
    have c': "counters (ev_after e) K = Some (VInt c)"
      using sequence_step_other[OF step False] before Cons.prems(2) by simp
    show ?thesis
      using Cons.IH[OF rest c' steps] False by simp
  qed
qed

lemma chained_progression_fresh:
  assumes "chained L ov cs es"
    and "cs K = None"
    and "\<forall>e \<in> set es. ev_key L e = Some K \<longrightarrow> (\<exists>s. ev_step e = VInt s)"
    and "\<forall>e rest. filter (\<lambda>e. ev_key L e = Some K) es = e # rest \<longrightarrow>
           ev_start e = VInt a \<and> ev_override_key e = okey"
    and "v0 = (case okey of
                 VStr k \<Rightarrow> (case map_of ov k of Some i \<Rightarrow> i | None \<Rightarrow> a)
               | _ \<Rightarrow> a)"
  shows "map ev_written (filter (\<lambda>e. ev_key L e = Some K) es)
         = map2 (\<lambda>e v. sequence_render L (ev_format e) (VInt v))
             (filter (\<lambda>e. ev_key L e = Some K) es)
             (partial_sums v0 (map ev_step_int (filter (\<lambda>e. ev_key L e = Some K) es)))"
  using assms(1,2,3,4)
proof (induction es arbitrary: cs)
  case Nil
  then show ?case by simp
next
  case (Cons e es)
  have step: "sequence_step L ov (ev_rule e) (ev_path e, VDict (ev_info e)) (ev_before e)
                = Inr (ev_after e)"
    and before: "counters (ev_before e) = cs"
    and rest: "chained L ov (counters (ev_after e)) es"
    using Cons.prems(1) by simp_all
  have steps: "\<forall>e \<in> set es. ev_key L e = Some K \<longrightarrow> (\<exists>s. ev_step e = VInt s)"
    using Cons.prems(3) by simp
  show ?case
  proof (cases "ev_key L e = Some K")
    case True
    then obtain s where s: "ev_step e = VInt s" using Cons.prems(3) by auto
    have first: "ev_start e = VInt a" "ev_override_key e = okey"
      using Cons.prems(4) True by simp_all
    obtain cur where init: "sequence_initial ov (ev_start e) (ev_override_key e) = Inr cur"
      using sequence_step_Inr[OF step True] before Cons.prems(2) by auto
    have cur: "cur = VInt v0"
      using sequence_initial_int[of ov a okey cur] init first assms(5) by simp
    have b: "counters (ev_after e) K = Some (VInt (v0 + s)) \<and>
             ev_written e = sequence_render L (ev_format e) (VInt v0)"
      using sequence_step_bound[OF step True _ s, of v0] before Cons.prems(2) init cur
      by simp
    have si: "ev_step_int e = s" using s by (simp add: ev_step_int_def)
    show ?thesis
      using chained_progression_existing[OF rest _ steps, where c = "v0 + s"] b True si
      by simp
  next
    case False
    have c': "counters (ev_after e) K = None"
      using sequence_step_other[OF step False] before Cons.prems(2) by simp
    have f: "\<forall>e rest. filter (\<lambda>e. ev_key L e = Some K) es = e # rest \<longrightarrow>
           ev_start e = VInt a \<and> ev_override_key e = okey"
      using Cons.prems(4) False by simp
    show ?thesis
      using Cons.IH[OF rest c' steps f] False by simp
  qed
qed

lemma partial_sums_common_step:
  assumes "\<forall>e \<in> set evs. f e = s"
  shows "map2 F evs (partial_sums (v + int n * s) (map f evs))
         = map (\<lambda>(j, e). F e (v + int j * s)) (enumerate n evs)"
  using assms
proof (induction evs arbitrary: n)
  case Nil
  then show ?case by simp
next
  case (Cons e evs)
  have "v + int n * s + s = v + int (Suc n) * s" by (simp add: algebra_simps)
  then have "partial_sums (v + int n * s + s) (map f evs)
             = partial_sums (v + int (Suc n) * s) (map f evs)" by (rule arg_cong)
  then show ?case
    using Cons.IH[of "Suc n"] Cons.prems by (simp add: enumerate_simps del: of_nat_Suc)
qed

lemma chained_steps:
  "chained L ov cs es \<Longrightarrow> e \<in> set es \<Longrightarrow>
   sequence_step L ov (ev_rule e) (ev_path e, VDict (ev_info e)) (ev_before e)
     = Inr (ev_after e)"
  by (induction es arbitrary: cs) auto

lemma subst_plain:
  "CHR ''{'' \<notin> set s \<Longrightarrow> replace_all (CHR ''{'' # old) new s = s"
proof (induction s)
  case Nil
  then show ?case by (simp add: replace_all.simps)
next
  case (Cons c s)
  then have "c \<noteq> CHR ''{''" by auto
  then show ?case using Cons by (subst replace_all.simps) auto
qed

lemma substitute_plain: "CHR ''{'' \<notin> set s \<Longrightarrow> substitute L ctx s = s"
  by (induction ctx arbitrary: s) (simp_all add: subst_plain)

lemma pp_plain:
  "CHR ''{'' \<notin> set s \<Longrightarrow> process_placeholders L (VStr s) ctx = Inr (VStr s)"
  by (simp add: substitute_plain)

lemmas driver_defs =
  convert_single_file_def then_err_def py_iter_def py_items_def count_rule_def
  rule_keys_def old_group_def py_len_def key_matches_def content_key_base_def
  is_digit_def dict_get_def dict_has_def process_top_rule_def process_group_def
  process_item_def process_dynamic_context_def store_item_def process_rule_def
  apply_actions_def delete_phase_def items_phase_def sequence_step_def
  sequence_counter_key_def sequence_initial_def sequence_render_def set_final_def
  as_path_def set_nested_value_def py_add_def py_str_def Let_def

lemmas trace_defs =
  file_trace_def top_rule_trace_def group_trace_def item_trace_def rule_trace_def
  rule_entry_def actions_trace_def pre_sequence_def sequence_phase_trace_def
  sequence_event_def

lemma example_convert:
  "convert_single_file test_lib
     (VDict [(VStr ''items'', VDict [(VStr ''a'', VDict []), (VStr ''b'', VDict [])])])
     (VList [VDict [(VStr ''content'', VStr ''item''), (VStr ''rules'', VList [VDict [(VStr
     ''name'', VStr ''r1''), (VStr ''actions'', VDict [(VStr ''sequence'', VDict [(VStr
     ''cmd'', VDict [(VStr ''id'', VStr ''x''), (VStr ''start'', VInt 1)]), (VStr ''seq'',
     VDict [(VStr ''start'', VInt 5), (VStr ''step'', VInt 2)])])])], VDict [(VStr ''name'',
     VStr ''r2''), (VStr ''actions'', VDict [(VStr ''sequence'', VDict [(VStr ''n'', VDict
     [(VStr ''id'', VStr ''x''), (VStr ''step'', VInt (- 3))])])])]])]])
     [(''x'', 50000)]
   = Inr (VDict [(VStr ''items'', VDict [(VStr ''a'', VDict [(VStr ''cmd'', VInt 50000),
         (VStr ''seq'', VInt 5), (VStr ''n'', VInt 50001)]), (VStr ''b'', VDict [(VStr
         ''cmd'', VInt 49998), (VStr ''seq'', VInt 7), (VStr ''n'', VInt 49999)])])], [])"
  by (simp add: driver_defs pp_plain del: process_placeholders.simps(1))

lemma example_trace:
  "file_trace test_lib
        (VDict [(VStr ''items'', VDict [(VStr ''a'', VDict []), (VStr ''b'', VDict [])])])
        (VList [VDict [(VStr ''content'', VStr ''item''), (VStr ''rules'', VList [VDict
        [(VStr ''name'', VStr ''r1''), (VStr ''actions'', VDict [(VStr ''sequence'', VDict
        [(VStr ''cmd'', VDict [(VStr ''id'', VStr ''x''), (VStr ''start'', VInt 1)]), (VStr
        ''seq'', VDict [(VStr ''start'', VInt 5), (VStr ''step'', VInt 2)])])])], VDict
        [(VStr ''name'', VStr ''r2''), (VStr ''actions'', VDict [(VStr ''sequence'', VDict
        [(VStr ''n'', VDict [(VStr ''id'', VStr ''x''), (VStr ''step'', VInt (-
        3))])])])]])]])
        [(''x'', 50000)]
   = [\<lparr>ev_rule = VStr ''r1'', ev_path = VStr ''cmd'', ev_info = [(VStr ''id'', VStr
      ''x''), (VStr ''start'', VInt 1)], ev_before = \<lparr>config = VDict [], counters =
      Map.empty, log = []\<rparr>, ev_after = \<lparr>config = VDict [(VStr ''cmd'', VInt
      50000)], counters = [SharedKey ''shared_id_x'' \<mapsto> VInt 50001], log =
      []\<rparr>\<rparr>,
      \<lparr>ev_rule = VStr ''r1'', ev_path = VStr ''seq'', ev_info = [(VStr ''start'',
      VInt 5), (VStr ''step'', VInt 2)], ev_before = \<lparr>config = VDict [(VStr ''cmd'',
      VInt 50000)], counters = [SharedKey ''shared_id_x'' \<mapsto> VInt 50001], log =
      []\<rparr>, ev_after = \<lparr>config = VDict [(VStr ''cmd'', VInt 50000), (VStr
      ''seq'', VInt 5)], counters = [SharedKey ''shared_id_x'' \<mapsto> VInt 50001,
      IsolatedKey (VStr ''r1'') (VStr ''seq'') \<mapsto> VInt 7], log = []\<rparr>\<rparr>,
      \<lparr>ev_rule = VStr ''r2'', ev_path = VStr ''n'', ev_info = [(VStr ''id'', VStr
      ''x''), (VStr ''step'', VInt (- 3))], ev_before = \<lparr>config = VDict [(VStr
      ''cmd'', VInt 50000), (VStr ''seq'', VInt 5)], counters = [SharedKey ''shared_id_x''
      \<mapsto> VInt 50001, IsolatedKey (VStr ''r1'') (VStr ''seq'') \<mapsto> VInt 7], log
      = []\<rparr>, ev_after = \<lparr>config = VDict [(VStr ''cmd'', VInt 50000), (VStr
      ''seq'', VInt 5), (VStr ''n'', VInt 50001)], counters = [SharedKey ''shared_id_x''
      \<mapsto> VInt 50001, IsolatedKey (VStr ''r1'') (VStr ''seq'') \<mapsto> VInt 7,
      SharedKey ''shared_id_x'' \<mapsto> VInt 49998], log = []\<rparr>\<rparr>,
      \<lparr>ev_rule = VStr ''r1'', ev_path = VStr ''cmd'', ev_info = [(VStr ''id'', VStr
      ''x''), (VStr ''start'', VInt 1)], ev_before = \<lparr>config = VDict [], counters =
      [SharedKey ''shared_id_x'' \<mapsto> VInt 50001, IsolatedKey (VStr ''r1'') (VStr
      ''seq'') \<mapsto> VInt 7, SharedKey ''shared_id_x'' \<mapsto> VInt 49998], log =
      []\<rparr>, ev_after = \<lparr>config = VDict [(VStr ''cmd'', VInt 49998)], counters =
      [SharedKey ''shared_id_x'' \<mapsto> VInt 50001, IsolatedKey (VStr ''r1'') (VStr
      ''seq'') \<mapsto> VInt 7, SharedKey ''shared_id_x'' \<mapsto> VInt 49998, SharedKey
      ''shared_id_x'' \<mapsto> VInt 49999], log = []\<rparr>\<rparr>,
      \<lparr>ev_rule = VStr ''r1'', ev_path = VStr ''seq'', ev_info = [(VStr ''start'',
      VInt 5), (VStr ''step'', VInt 2)], ev_before = \<lparr>config = VDict [(VStr ''cmd'',
      VInt 49998)], counters = [SharedKey ''shared_id_x'' \<mapsto> VInt 50001, IsolatedKey
      (VStr ''r1'') (VStr ''seq'') \<mapsto> VInt 7, SharedKey ''shared_id_x'' \<mapsto>
      VInt 49998, SharedKey ''shared_id_x'' \<mapsto> VInt 49999], log = []\<rparr>,
      ev_after = \<lparr>config = VDict [(VStr ''cmd'', VInt 49998), (VStr ''seq'', VInt
      7)], counters = [SharedKey ''shared_id_x'' \<mapsto> VInt 50001, IsolatedKey (VStr
      ''r1'') (VStr ''seq'') \<mapsto> VInt 7, SharedKey ''shared_id_x'' \<mapsto> VInt
      49998, SharedKey ''shared_id_x'' \<mapsto> VInt 49999, IsolatedKey (VStr ''r1'') (VStr
      ''seq'') \<mapsto> VInt 9], log = []\<rparr>\<rparr>,
      \<lparr>ev_rule = VStr ''r2'', ev_path = VStr ''n'', ev_info = [(VStr ''id'', VStr
      ''x''), (VStr ''step'', VInt (- 3))], ev_before = \<lparr>config = VDict [(VStr
      ''cmd'', VInt 49998), (VStr ''seq'', VInt 7)], counters = [SharedKey ''shared_id_x''
      \<mapsto> VInt 50001, IsolatedKey (VStr ''r1'') (VStr ''seq'') \<mapsto> VInt 7,
      SharedKey ''shared_id_x'' \<mapsto> VInt 49998, SharedKey ''shared_id_x'' \<mapsto>
      VInt 49999, IsolatedKey (VStr ''r1'') (VStr ''seq'') \<mapsto> VInt 9], log =
      []\<rparr>, ev_after = \<lparr>config = VDict [(VStr ''cmd'', VInt 49998), (VStr
      ''seq'', VInt 7), (VStr ''n'', VInt 49999)], counters = [SharedKey ''shared_id_x''
      \<mapsto> VInt 50001, IsolatedKey (VStr ''r1'') (VStr ''seq'') \<mapsto> VInt 7,
      SharedKey ''shared_id_x'' \<mapsto> VInt 49998, SharedKey ''shared_id_x'' \<mapsto>
      VInt 49999, IsolatedKey (VStr ''r1'') (VStr ''seq'') \<mapsto> VInt 9, SharedKey
      ''shared_id_x'' \<mapsto> VInt 49996], log = []\<rparr>\<rparr>]"
  by (simp add: trace_defs driver_defs pp_plain del: process_placeholders.simps(1))

text \<open>
  C2, as the spec states it, fails: a counter shared through an id advances by the step
  of whichever entry has just used it. With the id \<^verbatim>\<open>x\<close> used by one rule with the
  default step 1 and by another with step -3, the values written for the key
  \<^verbatim>\<open>shared_id_x\<close> over two records are 50000, 50001, 49998, 49999: no arithmetic
  progression.
\<close>

theorem shared_counter_steps_counterexample:
  "convert_single_file test_lib
     (VDict [(VStr ''items'', VDict [(VStr ''a'', VDict []), (VStr ''b'', VDict [])])])
     (VList [VDict [(VStr ''content'', VStr ''item''), (VStr ''rules'', VList [VDict [(VStr
     ''name'', VStr ''r1''), (VStr ''actions'', VDict [(VStr ''sequence'', VDict [(VStr
     ''cmd'', VDict [(VStr ''id'', VStr ''x''), (VStr ''start'', VInt 1)]), (VStr ''seq'',
     VDict [(VStr ''start'', VInt 5), (VStr ''step'', VInt 2)])])])], VDict [(VStr ''name'',
     VStr ''r2''), (VStr ''actions'', VDict [(VStr ''sequence'', VDict [(VStr ''n'', VDict
     [(VStr ''id'', VStr ''x''), (VStr ''step'', VInt (- 3))])])])]])]])
     [(''x'', 50000)]
   = Inr (VDict [(VStr ''items'', VDict [(VStr ''a'', VDict [(VStr ''cmd'', VInt 50000),
         (VStr ''seq'', VInt 5), (VStr ''n'', VInt 50001)]), (VStr ''b'', VDict [(VStr
         ''cmd'', VInt 49998), (VStr ''seq'', VInt 7), (VStr ''n'', VInt 49999)])])], []) \<and>
   map ev_written
     (filter (\<lambda>e. ev_key test_lib e = Some (SharedKey ''shared_id_x''))
       (file_trace test_lib
        (VDict [(VStr ''items'', VDict [(VStr ''a'', VDict []), (VStr ''b'', VDict [])])])
        (VList [VDict [(VStr ''content'', VStr ''item''), (VStr ''rules'', VList [VDict
        [(VStr ''name'', VStr ''r1''), (VStr ''actions'', VDict [(VStr ''sequence'', VDict
        [(VStr ''cmd'', VDict [(VStr ''id'', VStr ''x''), (VStr ''start'', VInt 1)]), (VStr
        ''seq'', VDict [(VStr ''start'', VInt 5), (VStr ''step'', VInt 2)])])])], VDict
        [(VStr ''name'', VStr ''r2''), (VStr ''actions'', VDict [(VStr ''sequence'', VDict
        [(VStr ''n'', VDict [(VStr ''id'', VStr ''x''), (VStr ''step'', VInt (-
        3))])])])]])]])
        [(''x'', 50000)]))
   = [VInt 50000, VInt 50001, VInt 49998, VInt 49999] \<and>
   \<not> (\<exists>s :: int. 50001 = 50000 + s \<and> 49998 = 50000 + 2 * s)"
proof -
  have "\<not> (\<exists>s :: int. 50001 = 50000 + s \<and> 49998 = 50000 + 2 * s)" by presburger
  then show ?thesis
    unfolding example_convert example_trace
    by (simp add: ev_key_def ev_written_def sequence_counter_key_def dict_get_def py_str_def
          get_nested_value_def)
qed

text \<open>
  C2, amended. Take the sequence actions of one file conversion that are bound to a
  counter key \<open>K\<close>, in application order: the events of \<open>file_trace\<close> with that key.
  Let their steps be integers, and let the first of them have the integer start \<open>a\<close>
  and the override key \<open>okey\<close> (its id if it has one, else its path). The sequence
  actions of the conversion are chained from the empty counters: each is a run of the
  loop body from the state the driver passed it, and finds the counters the action
  before it left, in whatever record or rule that was. The first action bound to \<open>K\<close>
  writes
  \<open>v0\<close>, the override given for \<open>okey\<close> if there is one, else \<open>a\<close>; every later one
  writes what the one before it wrote plus the step of that one (through its own format,
  if it has one), however the actions bound to other keys are interleaved and whatever
  record or rule the action belongs to. So neither a later start nor the overrides
  enter again and the counter is never reset; when the actions bound to \<open>K\<close> have one
  common step \<open>s\<close>, the values are \<open>v0\<close>, \<open>v0 + s\<close>, \<open>v0 + 2 * s\<close>, and so on.
\<close>

theorem sequence_counter_progression:
  assumes "evs = filter (\<lambda>e. ev_key L e = Some K) (file_trace L old_data rules_list ov)"
    and "\<forall>e \<in> set evs. \<exists>s. ev_step e = VInt s"
    and "\<forall>e rest. evs = e # rest \<longrightarrow> ev_start e = VInt a \<and> ev_override_key e = okey"
    and "v0 = (case okey of
                 VStr k \<Rightarrow> (case map_of ov k of Some i \<Rightarrow> i | None \<Rightarrow> a)
               | _ \<Rightarrow> a)"
  shows "chained L ov Map.empty (file_trace L old_data rules_list ov) \<and>
         (\<forall>e \<in> set evs.
            sequence_step L ov (ev_rule e) (ev_path e, VDict (ev_info e)) (ev_before e)
              = Inr (ev_after e)) \<and>
         map ev_written evs
           = map2 (\<lambda>e v. sequence_render L (ev_format e) (VInt v)) evs
               (partial_sums v0 (map ev_step_int evs)) \<and>
         ((\<forall>e \<in> set evs. ev_step e = VInt s) \<longrightarrow>
            map ev_written evs
              = map (\<lambda>(j, e). sequence_render L (ev_format e) (VInt (v0 + int j * s)))
                  (enumerate 0 evs))"
proof -
  let ?tr = "file_trace L old_data rules_list ov"
  have ch: "chained L ov Map.empty ?tr" by (rule file_chained)
  have steps: "\<forall>e \<in> set ?tr. ev_key L e = Some K \<longrightarrow> (\<exists>s. ev_step e = VInt s)"
    using assms(1,2) by simp
  have first: "\<forall>e rest. filter (\<lambda>e. ev_key L e = Some K) ?tr = e # rest \<longrightarrow>
           ev_start e = VInt a \<and> ev_override_key e = okey"
    using assms(1,3) by simp
  have a: "\<forall>e \<in> set evs.
            sequence_step L ov (ev_rule e) (ev_path e, VDict (ev_info e)) (ev_before e)
              = Inr (ev_after e)"
    using chained_steps[OF ch] assms(1) by simp
  have b: "map ev_written evs
           = map2 (\<lambda>e v. sequence_render L (ev_format e) (VInt v)) evs
               (partial_sums v0 (map ev_step_int evs))"
    using chained_progression_fresh[OF ch _ steps first assms(4)] assms(1) by simp
  have c: "map ev_written evs
              = map (\<lambda>(j, e). sequence_render L (ev_format e) (VInt (v0 + int j * s)))
                  (enumerate 0 evs)"
    if "\<forall>e \<in> set evs. ev_step e = VInt s"
  proof -
    have "\<forall>e \<in> set evs. ev_step_int e = s" using that by (simp add: ev_step_int_def)
    from partial_sums_common_step[OF this, of "\<lambda>e v. sequence_render L (ev_format e) (VInt v)" v0 0]
    show ?thesis using b by simp
  qed
  show ?thesis using ch a b c by blast
qed

theorem sequence_counter_progression_witness:
  "map ev_written
     (filter (\<lambda>e. ev_key test_lib e = Some (SharedKey ''shared_id_x''))
       (file_trace test_lib
        (VDict [(VStr ''items'', VDict [(VStr ''a'', VDict []), (VStr ''b'', VDict [])])])
        (VList [VDict [(VStr ''content'', VStr ''item''), (VStr ''rules'', VList [VDict
        [(VStr ''name'', VStr ''r1''), (VStr ''actions'', VDict [(VStr ''sequence'', VDict
        [(VStr ''cmd'', VDict [(VStr ''id'', VStr ''x''), (VStr ''start'', VInt 1)]), (VStr
        ''seq'', VDict [(VStr ''start'', VInt 5), (VStr ''step'', VInt 2)])])])], VDict
        [(VStr ''name'', VStr ''r2''), (VStr ''actions'', VDict [(VStr ''sequence'', VDict
        [(VStr ''n'', VDict [(VStr ''id'', VStr ''x''), (VStr ''step'', VInt (-
        3))])])])]])]])
        [(''x'', 50000)]))
   = [VInt 50000, VInt 50001, VInt 49998, VInt 49999] \<and>
   map ev_written
     (filter (\<lambda>e. ev_key test_lib e = Some (IsolatedKey (VStr ''r1'') (VStr ''seq'')))
       (file_trace test_lib
        (VDict [(VStr ''items'', VDict [(VStr ''a'', VDict []), (VStr ''b'', VDict [])])])
        (VList [VDict [(VStr ''content'', VStr ''item''), (VStr ''rules'', VList [VDict
        [(VStr ''name'', VStr ''r1''), (VStr ''actions'', VDict [(VStr ''sequence'', VDict
        [(VStr ''cmd'', VDict [(VStr ''id'', VStr ''x''), (VStr ''start'', VInt 1)]), (VStr
        ''seq'', VDict [(VStr ''start'', VInt 5), (VStr ''step'', VInt 2)])])])], VDict
        [(VStr ''name'', VStr ''r2''), (VStr ''actions'', VDict [(VStr ''sequence'', VDict
        [(VStr ''n'', VDict [(VStr ''id'', VStr ''x''), (VStr ''step'', VInt (-
        3))])])])]])]])
        [(''x'', 50000)]))
   = [VInt 5, VInt 7]"
proof -
  let ?e1 = "\<lparr>ev_rule = VStr ''r1'', ev_path = VStr ''cmd'', ev_info = [(VStr ''id'',
             VStr ''x''), (VStr ''start'', VInt 1)], ev_before = \<lparr>config = VDict [],
             counters = Map.empty, log = []\<rparr>, ev_after = \<lparr>config = VDict
             [(VStr ''cmd'', VInt 50000)], counters = [SharedKey ''shared_id_x'' \<mapsto>
             VInt 50001], log = []\<rparr>\<rparr>"
  let ?e2 = "\<lparr>ev_rule = VStr ''r1'', ev_path = VStr ''seq'', ev_info = [(VStr
             ''start'', VInt 5), (VStr ''step'', VInt 2)], ev_before = \<lparr>config =
             VDict [(VStr ''cmd'', VInt 50000)], counters = [SharedKey ''shared_id_x''
             \<mapsto> VInt 50001], log = []\<rparr>, ev_after = \<lparr>config = VDict
             [(VStr ''cmd'', VInt 50000), (VStr ''seq'', VInt 5)], counters = [SharedKey
             ''shared_id_x'' \<mapsto> VInt 50001, IsolatedKey (VStr ''r1'') (VStr ''seq'')
             \<mapsto> VInt 7], log = []\<rparr>\<rparr>"
  let ?e3 = "\<lparr>ev_rule = VStr ''r2'', ev_path = VStr ''n'', ev_info = [(VStr ''id'',
             VStr ''x''), (VStr ''step'', VInt (- 3))], ev_before = \<lparr>config = VDict
             [(VStr ''cmd'', VInt 50000), (VStr ''seq'', VInt 5)], counters = [SharedKey
             ''shared_id_x'' \<mapsto> VInt 50001, IsolatedKey (VStr ''r1'') (VStr ''seq'')
             \<mapsto> VInt 7], log = []\<rparr>, ev_after = \<lparr>config = VDict [(VStr
             ''cmd'', VInt 50000), (VStr ''seq'', VInt 5), (VStr ''n'', VInt 50001)],
             counters = [SharedKey ''shared_id_x'' \<mapsto> VInt 50001, IsolatedKey (VStr
             ''r1'') (VStr ''seq'') \<mapsto> VInt 7, SharedKey ''shared_id_x'' \<mapsto>
             VInt 49998], log = []\<rparr>\<rparr>"
  let ?e4 = "\<lparr>ev_rule = VStr ''r1'', ev_path = VStr ''cmd'', ev_info = [(VStr ''id'',
             VStr ''x''), (VStr ''start'', VInt 1)], ev_before = \<lparr>config = VDict [],
             counters = [SharedKey ''shared_id_x'' \<mapsto> VInt 50001, IsolatedKey (VStr
             ''r1'') (VStr ''seq'') \<mapsto> VInt 7, SharedKey ''shared_id_x'' \<mapsto>
             VInt 49998], log = []\<rparr>, ev_after = \<lparr>config = VDict [(VStr
             ''cmd'', VInt 49998)], counters = [SharedKey ''shared_id_x'' \<mapsto> VInt
             50001, IsolatedKey (VStr ''r1'') (VStr ''seq'') \<mapsto> VInt 7, SharedKey
             ''shared_id_x'' \<mapsto> VInt 49998, SharedKey ''shared_id_x'' \<mapsto> VInt
             49999], log = []\<rparr>\<rparr>"
  let ?e5 = "\<lparr>ev_rule = VStr ''r1'', ev_path = VStr ''seq'', ev_info = [(VStr
             ''start'', VInt 5), (VStr ''step'', VInt 2)], ev_before = \<lparr>config =
             VDict [(VStr ''cmd'', VInt 49998)], counters = [SharedKey ''shared_id_x''
             \<mapsto> VInt 50001, IsolatedKey (VStr ''r1'') (VStr ''seq'') \<mapsto> VInt
             7, SharedKey ''shared_id_x'' \<mapsto> VInt 49998, SharedKey ''shared_id_x''
             \<mapsto> VInt 49999], log = []\<rparr>, ev_after = \<lparr>config = VDict
             [(VStr ''cmd'', VInt 49998), (VStr ''seq'', VInt 7)], counters = [SharedKey
             ''shared_id_x'' \<mapsto> VInt 50001, IsolatedKey (VStr ''r1'') (VStr ''seq'')
             \<mapsto> VInt 7, SharedKey ''shared_id_x'' \<mapsto> VInt 49998, SharedKey
             ''shared_id_x'' \<mapsto> VInt 49999, IsolatedKey (VStr ''r1'') (VStr ''seq'')
             \<mapsto> VInt 9], log = []\<rparr>\<rparr>"
  let ?e6 = "\<lparr>ev_rule = VStr ''r2'', ev_path = VStr ''n'', ev_info = [(VStr ''id'',
             VStr ''x''), (VStr ''step'', VInt (- 3))], ev_before = \<lparr>config = VDict
             [(VStr ''cmd'', VInt 49998), (VStr ''seq'', VInt 7)], counters = [SharedKey
             ''shared_id_x'' \<mapsto> VInt 50001, IsolatedKey (VStr ''r1'') (VStr ''seq'')
             \<mapsto> VInt 7, SharedKey ''shared_id_x'' \<mapsto> VInt 49998, SharedKey
             ''shared_id_x'' \<mapsto> VInt 49999, IsolatedKey (VStr ''r1'') (VStr ''seq'')
             \<mapsto> VInt 9], log = []\<rparr>, ev_after = \<lparr>config = VDict [(VStr
             ''cmd'', VInt 49998), (VStr ''seq'', VInt 7), (VStr ''n'', VInt 49999)],
             counters = [SharedKey ''shared_id_x'' \<mapsto> VInt 50001, IsolatedKey (VStr
             ''r1'') (VStr ''seq'') \<mapsto> VInt 7, SharedKey ''shared_id_x'' \<mapsto>
             VInt 49998, SharedKey ''shared_id_x'' \<mapsto> VInt 49999, IsolatedKey (VStr
             ''r1'') (VStr ''seq'') \<mapsto> VInt 9, SharedKey ''shared_id_x'' \<mapsto>
             VInt 49996], log = []\<rparr>\<rparr>"
  let ?K = "SharedKey ''shared_id_x''"
  let ?K2 = "IsolatedKey (VStr ''r1'') (VStr ''seq'')"
  have k: "ev_key test_lib ?e1 = Some ?K" "ev_key test_lib ?e2 = Some ?K2"
      "ev_key test_lib ?e3 = Some ?K" "ev_key test_lib ?e4 = Some ?K"
      "ev_key test_lib ?e5 = Some ?K2" "ev_key test_lib ?e6 = Some ?K"
    by (simp_all add: ev_key_def sequence_counter_key_def dict_get_def py_str_def)
  have shared: "[?e1, ?e3, ?e4, ?e6]
      = filter (\<lambda>e. ev_key test_lib e = Some ?K)
          (file_trace test_lib
        (VDict [(VStr ''items'', VDict [(VStr ''a'', VDict []), (VStr ''b'', VDict [])])])
        (VList [VDict [(VStr ''content'', VStr ''item''), (VStr ''rules'', VList [VDict
        [(VStr ''name'', VStr ''r1''), (VStr ''actions'', VDict [(VStr ''sequence'', VDict
        [(VStr ''cmd'', VDict [(VStr ''id'', VStr ''x''), (VStr ''start'', VInt 1)]), (VStr
        ''seq'', VDict [(VStr ''start'', VInt 5), (VStr ''step'', VInt 2)])])])], VDict
        [(VStr ''name'', VStr ''r2''), (VStr ''actions'', VDict [(VStr ''sequence'', VDict
        [(VStr ''n'', VDict [(VStr ''id'', VStr ''x''), (VStr ''step'', VInt (-
        3))])])])]])]])
        [(''x'', 50000)])"
    unfolding example_trace using k by simp
  have isolated: "[?e2, ?e5]
      = filter (\<lambda>e. ev_key test_lib e = Some ?K2)
          (file_trace test_lib
        (VDict [(VStr ''items'', VDict [(VStr ''a'', VDict []), (VStr ''b'', VDict [])])])
        (VList [VDict [(VStr ''content'', VStr ''item''), (VStr ''rules'', VList [VDict
        [(VStr ''name'', VStr ''r1''), (VStr ''actions'', VDict [(VStr ''sequence'', VDict
        [(VStr ''cmd'', VDict [(VStr ''id'', VStr ''x''), (VStr ''start'', VInt 1)]), (VStr
        ''seq'', VDict [(VStr ''start'', VInt 5), (VStr ''step'', VInt 2)])])])], VDict
        [(VStr ''name'', VStr ''r2''), (VStr ''actions'', VDict [(VStr ''sequence'', VDict
        [(VStr ''n'', VDict [(VStr ''id'', VStr ''x''), (VStr ''step'', VInt (-
        3))])])])]])]])
        [(''x'', 50000)])"
    unfolding example_trace using k by simp
  have steps: "\<forall>e \<in> set [?e1, ?e3, ?e4, ?e6]. \<exists>s. ev_step e = VInt s"
    by (simp add: ev_step_def dict_get_def)
  have first: "\<forall>e rest. [?e1, ?e3, ?e4, ?e6] = e # rest \<longrightarrow>
      ev_start e = VInt 1 \<and> ev_override_key e = VStr ''x''"
    by (simp add: ev_start_def ev_override_key_def dict_get_def)
  have v0: "(50000 :: int)
      = (case VStr ''x'' of
           VStr k \<Rightarrow> (case map_of [(''x'', 50000)] k of Some i \<Rightarrow> i | None \<Rightarrow> 1)
         | _ \<Rightarrow> 1)"
    by simp
  have "map ev_written [?e1, ?e3, ?e4, ?e6]
      = map2 (\<lambda>e v. sequence_render test_lib (ev_format e) (VInt v)) [?e1, ?e3, ?e4, ?e6]
          (partial_sums 50000 (map ev_step_int [?e1, ?e3, ?e4, ?e6]))"
    using sequence_counter_progression[OF shared steps first v0] by blast
  then have a: "map ev_written [?e1, ?e3, ?e4, ?e6]
      = [VInt 50000, VInt 50001, VInt 49998, VInt 49999]"
    by (simp add: ev_step_int_def ev_step_def ev_format_def sequence_render_def dict_get_def)
  have steps2: "\<forall>e \<in> set [?e2, ?e5]. \<exists>s. ev_step e = VInt s"
    by (simp add: ev_step_def dict_get_def)
  have first2: "\<forall>e rest. [?e2, ?e5] = e # rest \<longrightarrow>
      ev_start e = VInt 5 \<and> ev_override_key e = VStr ''seq''"
    by (simp add: ev_start_def ev_override_key_def dict_get_def)
  have v02: "(5 :: int)
      = (case VStr ''seq'' of
           VStr k \<Rightarrow> (case map_of [(''x'', 50000)] k of Some i \<Rightarrow> i | None \<Rightarrow> 5)
         | _ \<Rightarrow> 5)"
    by simp
  have common: "\<forall>e \<in> set [?e2, ?e5]. ev_step e = VInt 2"
    by (simp add: ev_step_def dict_get_def)
  have "map ev_written [?e2, ?e5]
      = map (\<lambda>(j, e). sequence_render test_lib (ev_format e) (VInt (5 + int j * 2)))
          (enumerate 0 [?e2, ?e5])"
    using sequence_counter_progression[OF isolated steps2 first2 v02, of 2] common by blast
  then have b: "map ev_written [?e2, ?e5] = [VInt 5, VInt 7]"
    by (simp add: enumerate_simps ev_format_def sequence_render_def dict_get_def)
  show ?thesis
    using a b unfolding shared[symmetric] isolated[symmetric] by (rule conjI)
qed

end
